theory Spec2Isabelle
  imports Complex_Main
begin

section \<open>Constants (class Constants of main.py)\<close>

text \<open>
  A grid cell holds either the integer \<open>0\<close> or an RGB tuple (the colour of a settled
  block). Every test the game makes on a cell (\<open>cell == 0\<close>, \<open>cell != 0\<close>, truthiness)
  separates exactly these two cases: a non-empty tuple is truthy and differs from \<open>0\<close>.
\<close>

type_synonym color = "int \<times> int \<times> int"

datatype cell = Zero | Color color

definition WHITE :: color where "WHITE = (255, 255, 255)"
definition RED :: color where "RED = (255, 0, 0)"
definition CYAN :: color where "CYAN = (0, 255, 255)"
definition MAGENTA :: color where "MAGENTA = (255, 0, 255)"
definition BLUE :: color where "BLUE = (0, 0, 255)"
definition GREEN :: color where "GREEN = (0, 255, 0)"
definition YELLOW :: color where "YELLOW = (255, 255, 0)"

definition GRID_WIDTH :: int where "GRID_WIDTH = 10"
definition GRID_HEIGHT :: int where "GRID_HEIGHT = 20"
definition SKILL_COOLDOWN :: int where "SKILL_COOLDOWN = 45"
definition INITIAL_MOVE_DELAY :: int where "INITIAL_MOVE_DELAY = 1000"

definition SHAPES :: "int list list list" where
  "SHAPES =
    [[[1, 1, 1, 1]],
     [[1, 1, 1], [0, 0, 1]],
     [[1, 1, 1], [1, 0, 0]],
     [[1, 1], [1, 1]],
     [[1, 1, 0], [0, 1, 1]],
     [[0, 1, 1], [1, 1, 0]],
     [[1, 1, 1], [0, 1, 0]]]"

definition SHAPE_COLORS :: "color list" where
  "SHAPE_COLORS = [CYAN, RED, MAGENTA, WHITE, GREEN, YELLOW, BLUE]"

section \<open>Exceptions and Python list indexing\<close>

text \<open>
  A result \<open>Inl e\<close> stands for the exception \<open>e\<close> raised and not caught: IndexError
  from an index out of range, AttributeError from reading an attribute of the settings
  object that was never set, and PygameError (\<open>pygame.error\<close>) from the music player
  of a mixer that is not initialised. \<open>Inr v\<close> is the normal return of \<open>v\<close>.
  The controller's loop catches none of them around \<open>_handle_event\<close> and \<open>update\<close>,
  so a raise ends the session and the state it leaves behind is never read again.
\<close>

datatype error = IndexError | AttributeError | PygameError

text \<open>
  \<open>xs[i]\<close> accepts \<open>-len(xs) \<le> i < len(xs)\<close>, a negative index counting from the
  end, and raises IndexError otherwise.
\<close>

definition py_norm :: "nat \<Rightarrow> int \<Rightarrow> error + nat" where
  "py_norm n i =
     (if 0 \<le> i \<and> i < int n then Inr (nat i)
      else if - int n \<le> i \<and> i < 0 then Inr (nat (i + int n))
      else Inl IndexError)"

definition py_get :: "'a list \<Rightarrow> int \<Rightarrow> error + 'a" where
  "py_get xs i = (case py_norm (length xs) i of Inl e \<Rightarrow> Inl e | Inr k \<Rightarrow> Inr (xs ! k))"

definition py_set :: "'a list \<Rightarrow> int \<Rightarrow> 'a \<Rightarrow> error + 'a list" where
  "py_set xs i v = (case py_norm (length xs) i of Inl e \<Rightarrow> Inl e | Inr k \<Rightarrow> Inr (xs[k := v]))"

text \<open>\<open>g[i][j]\<close> and \<open>g[i][j] = v\<close> on a list of lists.\<close>

definition py_get2 :: "'a list list \<Rightarrow> int \<Rightarrow> int \<Rightarrow> error + 'a" where
  "py_get2 g i j = (case py_get g i of Inl e \<Rightarrow> Inl e | Inr r \<Rightarrow> py_get r j)"

definition py_set2 :: "'a list list \<Rightarrow> int \<Rightarrow> int \<Rightarrow> 'a \<Rightarrow> error + 'a list list" where
  "py_set2 g i j v =
     (case py_get g i of
        Inl e \<Rightarrow> Inl e
      | Inr r \<Rightarrow> (case py_set r j v of Inl e \<Rightarrow> Inl e | Inr r' \<Rightarrow> py_set g i r'))"

section \<open>class GameSettings\<close>

text \<open>
  What the game core reads of the settings object. \<open>_init_sounds\<close> loads the four
  sounds one after another inside a \<open>try\<close> block whose handler only switches sound and
  music off, so after a failure the attributes not yet assigned do not exist: such an
  attribute is \<open>None\<close> here, and reading it raises AttributeError. \<open>mixer_ready\<close> is
  not an attribute of the object but the state of pygame's mixer module, which
  \<open>pygame.mixer.init()\<close> in \<open>_init_sounds\<close> leaves initialised or not.
\<close>

datatype sound = Sound string

record game_settings =
  music_enabled :: bool
  sound_enabled :: bool
  repeat_delay :: int
  line_clear_sound :: "sound option"
  rotate_sound :: "sound option"
  game_over_sound :: "sound option"
  special_skill_sound :: "sound option"
  mixer_ready :: bool

text \<open>
  The call \<open>settings.play_sound(settings.<name>)\<close>. Its argument is evaluated first,
  and raises AttributeError when the attribute was never set. \<open>play_sound\<close> itself
  plays the sound only when \<open>sound_enabled\<close> is set and catches every exception of the
  playing, so it always returns, and it changes nothing that the game reads.
\<close>

definition play_sound :: "game_settings \<Rightarrow> sound option \<Rightarrow> error + unit" where
  "play_sound settings attr = (case attr of None \<Rightarrow> Inl AttributeError | Some s \<Rightarrow> Inr ())"

text \<open>\<open>pygame.mixer.music.pause()\<close> raises \<open>pygame.error\<close> when the mixer is not initialised.\<close>

definition music_pause :: "game_settings \<Rightarrow> error + unit" where
  "music_pause settings = (if mixer_ready settings then Inr () else Inl PygameError)"

section \<open>class Tetrimino\<close>

record tetrimino =
  shape :: "int list list"
  color :: color
  x :: int
  y :: int
  rotation :: int

text \<open>
  The constructor reads \<open>shape[0]\<close>, which raises IndexError on a shape without rows.
  \<open>//\<close> is floor division, which is \<open>div\<close> on \<open>int\<close>.
\<close>

definition Tetrimino :: "int list list \<Rightarrow> color \<Rightarrow> error + tetrimino" where
  "Tetrimino sh c =
     (case py_get sh 0 of
        Inl e \<Rightarrow> Inl e
      | Inr first_row \<Rightarrow>
          Inr \<lparr>shape = sh, color = c,
               x = GRID_WIDTH div 2 - int (length first_row) div 2,
               y = 0, rotation = 0\<rparr>)"

text \<open>
  The index pairs at which the two nested loops
  \<open>for row in range(len(shape)): for col in range(len(shape[row])): if shape[row][col]\<close>
  run their body, in the order of the loops.
\<close>

definition occupied :: "int list list \<Rightarrow> (nat \<times> nat) list" where
  "occupied sh =
     concat (map (\<lambda>row. map (Pair row)
                   (filter (\<lambda>col. sh ! row ! col \<noteq> 0) [0..<length (sh ! row)]))
             [0..<length sh])"

text \<open>
  The body of the loops of \<open>valid_move\<close> over the remaining occupied cells: the first
  offending cell returns \<open>False\<close> at once; the grid is read only when \<open>y_pos \<ge> 0\<close>.
\<close>

fun check_cells ::
  "tetrimino \<Rightarrow> cell list list \<Rightarrow> int \<Rightarrow> int \<Rightarrow> (nat \<times> nat) list \<Rightarrow> error + bool" where
  "check_cells p g dx dy [] = Inr True"
| "check_cells p g dx dy ((row, col) # rest) =
     (let x_pos = x p + int col + dx;
          y_pos = y p + int row + dy
      in if x_pos < 0 \<or> x_pos \<ge> GRID_WIDTH \<or> y_pos \<ge> GRID_HEIGHT then Inr False
         else if y_pos \<ge> 0 then
           (case py_get2 g y_pos x_pos of
              Inl e \<Rightarrow> Inl e
            | Inr c \<Rightarrow> if c \<noteq> Zero then Inr False else check_cells p g dx dy rest)
         else check_cells p g dx dy rest)"

definition valid_move :: "tetrimino \<Rightarrow> cell list list \<Rightarrow> int \<Rightarrow> int \<Rightarrow> error + bool" where
  "valid_move p g dx dy = check_cells p g dx dy (occupied (shape p))"

text \<open>\<open>move\<close> returns the piece after the call together with the returned flag.\<close>

definition move :: "tetrimino \<Rightarrow> cell list list \<Rightarrow> int \<Rightarrow> int \<Rightarrow> error + tetrimino \<times> bool" where
  "move p g dx dy =
     (case valid_move p g dx dy of
        Inl e \<Rightarrow> Inl e
      | Inr ok \<Rightarrow>
          if ok then Inr (p\<lparr>x := x p + dx, y := y p + dy\<rparr>, True)
          else Inr (p, False))"

text \<open>
  \<open>zip(*rows)\<close> stops at the shortest row and yields nothing for no rows;
  \<open>[list(row) for row in zip(*rows)]\<close> is the list of its columns.
\<close>

fun min_length :: "'a list list \<Rightarrow> nat" where
  "min_length [] = 0"
| "min_length [r] = length r"
| "min_length (r # rs) = min (length r) (min_length rs)"

definition zip_star :: "'a list list \<Rightarrow> 'a list list" where
  "zip_star rows = map (\<lambda>i. map (\<lambda>r. r ! i) rows) [0..<min_length rows]"

text \<open>
  \<open>rotate\<close> returns \<open>None\<close> in Python. When the candidate is valid it keeps the new
  shape and then calls \<open>settings.play_sound(settings.rotate_sound)\<close>, its only signal
  of the outcome; the flag returned here records whether that call was made. The piece
  returned is the piece after a call that returns.
\<close>

definition rotate ::
  "tetrimino \<Rightarrow> cell list list \<Rightarrow> game_settings \<Rightarrow> error + tetrimino \<times> bool" where
  "rotate p g settings =
     (let original_shape = shape p;
          p' = p\<lparr>shape := zip_star (rev (shape p))\<rparr>
      in case valid_move p' g 0 0 of
           Inl e \<Rightarrow> Inl e
         | Inr ok \<Rightarrow>
             if \<not> ok then Inr (p'\<lparr>shape := original_shape\<rparr>, False)
             else (case play_sound settings (rotate_sound settings) of
                     Inl e \<Rightarrow> Inl e
                   | Inr u \<Rightarrow> Inr (p', True)))"

section \<open>class GameState\<close>

datatype key = K_LEFT | K_RIGHT | K_DOWN

text \<open>
  The wall clock \<open>time.time()\<close> is a real number of seconds and the tick counter
  \<open>pygame.time.get_ticks()\<close> an integer number of milliseconds; both are inputs of the
  operations that read them, as is the index drawn by \<open>random.randint(0, 6)\<close>. The
  settings object \<open>self.settings\<close> is shared with the controller, which alone changes
  it; the game state only reads it, so it is an input of each operation that does.
\<close>

record game_state =
  grid :: "cell list list"
  score :: int
  last_skill_time :: real
  current_tetrimino :: tetrimino
  next_tetrimino :: tetrimino
  falling_speed :: int
  last_fall_time :: int
  total_lines_cleared :: int
  game_over :: bool
  paused :: bool
  held_keys :: "key \<Rightarrow> bool"
  last_move_time :: "key \<Rightarrow> int"
  move_delay :: int

definition new_tetrimino :: "int \<Rightarrow> error + tetrimino" where
  "new_tetrimino shape_idx =
     (case py_get SHAPES shape_idx of
        Inl e \<Rightarrow> Inl e
      | Inr sh \<Rightarrow>
          (case py_get SHAPE_COLORS shape_idx of
             Inl e \<Rightarrow> Inl e
           | Inr c \<Rightarrow> Tetrimino sh c))"

definition reset :: "game_state \<Rightarrow> int \<Rightarrow> int \<Rightarrow> int \<Rightarrow> error + game_state" where
  "reset gs ticks idx1 idx2 =
     (case new_tetrimino idx1 of
        Inl e \<Rightarrow> Inl e
      | Inr cur \<Rightarrow>
          (case new_tetrimino idx2 of
             Inl e \<Rightarrow> Inl e
           | Inr nxt \<Rightarrow>
               Inr (gs\<lparr>grid := replicate (nat GRID_HEIGHT) (replicate (nat GRID_WIDTH) Zero),
                        score := 0,
                        last_skill_time := - real_of_int SKILL_COOLDOWN,
                        current_tetrimino := cur,
                        next_tetrimino := nxt,
                        falling_speed := 500,
                        last_fall_time := ticks,
                        total_lines_cleared := 0,
                        game_over := False,
                        paused := False\<rparr>)))"

text \<open>
  \<open>GameState.__init__\<close>: \<open>reset\<close> sets ten fields of the new object, the constructor
  the other three; \<open>gs0\<close> stands for the object before any field is set.
\<close>

definition GameState :: "game_state \<Rightarrow> int \<Rightarrow> int \<Rightarrow> int \<Rightarrow> error + game_state" where
  "GameState gs0 ticks idx1 idx2 =
     (case reset gs0 ticks idx1 idx2 of
        Inl e \<Rightarrow> Inl e
      | Inr gs \<Rightarrow>
          Inr (gs\<lparr>held_keys := (\<lambda>k. False),
                   last_move_time := (\<lambda>k. 0),
                   move_delay := INITIAL_MOVE_DELAY\<rparr>))"

text \<open>
  \<open>clear_lines\<close> reads \<open>self.settings.line_clear_sound\<close> only when a line is cleared,
  and before it changes the score and the grid.
\<close>

definition clear_lines :: "game_settings \<Rightarrow> game_state \<Rightarrow> error + game_state \<times> int" where
  "clear_lines settings gs =
     (let new_grid = filter (list_ex (\<lambda>c. c = Zero)) (grid gs);
          lines_cleared = GRID_HEIGHT - int (length new_grid)
      in case (if lines_cleared > 0
               then (case play_sound settings (line_clear_sound settings) of
                       Inl e \<Rightarrow> Inl e
                     | Inr u \<Rightarrow> Inr (gs\<lparr>score := score gs + 50 * (2 ^ nat lines_cleared - 1)\<rparr>))
               else Inr gs) of
           Inl e \<Rightarrow> Inl e
         | Inr gs1 \<Rightarrow>
             Inr (gs1\<lparr>grid := replicate (nat lines_cleared) (replicate (nat GRID_WIDTH) Zero)
                               @ new_grid\<rparr>,
                  lines_cleared))"

text \<open>
  The index pairs \<open>(y, x)\<close> of
  \<open>for y in range(GRID_HEIGHT - 3, GRID_HEIGHT) for x in range(GRID_WIDTH)\<close>.
\<close>

definition bottom_cells :: "(int \<times> int) list" where
  "bottom_cells =
     concat (map (\<lambda>r. map (Pair r) [0..GRID_WIDTH - 1]) [GRID_HEIGHT - 3..GRID_HEIGHT - 1])"

text \<open>\<open>any(self.grid[y][x] != 0 for ...)\<close> stops at the first occupied cell.\<close>

fun any_block :: "cell list list \<Rightarrow> (int \<times> int) list \<Rightarrow> error + bool" where
  "any_block g [] = Inr False"
| "any_block g ((r, c) # rest) =
     (case py_get2 g r c of
        Inl e \<Rightarrow> Inl e
      | Inr v \<Rightarrow> if v \<noteq> Zero then Inr True else any_block g rest)"

fun zero_cells :: "cell list list \<Rightarrow> (int \<times> int) list \<Rightarrow> error + cell list list" where
  "zero_cells g [] = Inr g"
| "zero_cells g ((r, c) # rest) =
     (case py_set2 g r c Zero of
        Inl e \<Rightarrow> Inl e
      | Inr g' \<Rightarrow> zero_cells g' rest)"

text \<open>
  \<open>self.grid[:-3]\<close> is the list without its last three rows (empty below three rows).
  The sound is played last, after the grid, the score and the time of the last use are
  set: when \<open>special_skill_sound\<close> was never set the call raises AttributeError and
  returns nothing.
\<close>

definition clear_last_three_rows ::
  "game_settings \<Rightarrow> game_state \<Rightarrow> real \<Rightarrow> error + game_state \<times> bool" where
  "clear_last_three_rows settings gs current_time =
     (if current_time - last_skill_time gs < real_of_int SKILL_COOLDOWN then Inr (gs, False)
      else if GRID_HEIGHT < 3 then Inr (gs, False)
      else
        (case any_block (grid gs) bottom_cells of
           Inl e \<Rightarrow> Inl e
         | Inr has_blocks \<Rightarrow>
             if \<not> has_blocks then Inr (gs, False)
             else
               (case zero_cells (grid gs) bottom_cells of
                  Inl e \<Rightarrow> Inl e
                | Inr zeroed \<Rightarrow>
                    (let new_grid = replicate 3 (replicate (nat GRID_WIDTH) Zero)
                                      @ take (length zeroed - 3) zeroed;
                         gs1 = gs\<lparr>grid := new_grid,
                                  score := score gs + 100,
                                  last_skill_time := current_time\<rparr>
                     in case play_sound settings (special_skill_sound settings) of
                          Inl e \<Rightarrow> Inl e
                        | Inr u \<Rightarrow> Inr (gs1, True)))))"

text \<open>The held-key loop of \<open>update\<close>: its body for one key, then the loop.\<close>

definition held_key_step ::
  "game_settings \<Rightarrow> game_state \<Rightarrow> int \<Rightarrow> key \<Rightarrow> error + game_state" where
  "held_key_step settings gs current_time k =
     (if held_keys gs k then
        (let time_since_last = current_time - last_move_time gs k;
             should_move = (if last_move_time gs k = 0
                            then time_since_last > move_delay gs
                            else time_since_last > repeat_delay settings)
         in if should_move then
              (case (case k of
                       K_LEFT \<Rightarrow> move (current_tetrimino gs) (grid gs) (- 1) 0
                     | K_RIGHT \<Rightarrow> move (current_tetrimino gs) (grid gs) 1 0
                     | K_DOWN \<Rightarrow> move (current_tetrimino gs) (grid gs) 0 1) of
                 Inl e \<Rightarrow> Inl e
               | Inr (p, moved) \<Rightarrow>
                   Inr (gs\<lparr>current_tetrimino := p,
                            last_move_time := (last_move_time gs)(k := current_time)\<rparr>))
            else Inr gs)
      else Inr gs)"

fun held_keys_loop ::
  "game_settings \<Rightarrow> game_state \<Rightarrow> int \<Rightarrow> key list \<Rightarrow> error + game_state" where
  "held_keys_loop settings gs current_time [] = Inr gs"
| "held_keys_loop settings gs current_time (k # ks) =
     (case held_key_step settings gs current_time k of
        Inl e \<Rightarrow> Inl e
      | Inr gs' \<Rightarrow> held_keys_loop settings gs' current_time ks)"

text \<open>The loop that writes the colour of the piece into the grid.\<close>

fun lock_cells ::
  "tetrimino \<Rightarrow> cell list list \<Rightarrow> (nat \<times> nat) list \<Rightarrow> error + cell list list" where
  "lock_cells p g [] = Inr g"
| "lock_cells p g ((row, col) # rest) =
     (case py_set2 g (y p + int row) (x p + int col) (Color (color p)) of
        Inl e \<Rightarrow> Inl e
      | Inr g' \<Rightarrow> lock_cells p g' rest)"

text \<open>
  Lines 342 to 347 of \<open>update\<close>: the cleared lines join the running total, and a total
  of ten or more speeds the fall up.
\<close>

definition add_cleared_lines :: "game_state \<Rightarrow> int \<Rightarrow> game_state" where
  "add_cleared_lines gs lines_cleared =
     (let gs1 = gs\<lparr>total_lines_cleared := total_lines_cleared gs + lines_cleared\<rparr>
      in if total_lines_cleared gs1 \<ge> 10
         then gs1\<lparr>falling_speed := max 100 (falling_speed gs1 - 50),
                  total_lines_cleared := total_lines_cleared gs1 - 10\<rparr>
         else gs1)"

text \<open>
  The branch of \<open>update\<close> taken when the automatic step down fails (lines 334 to 356):
  the lock event. On the game-over branch the flag is set first, then the music is
  paused and the game-over sound played; either call can raise.
\<close>

definition lock_piece :: "game_settings \<Rightarrow> game_state \<Rightarrow> int \<Rightarrow> int \<Rightarrow> error + game_state" where
  "lock_piece settings gs current_time shape_idx =
     (case lock_cells (current_tetrimino gs) (grid gs)
             (occupied (shape (current_tetrimino gs))) of
        Inl e \<Rightarrow> Inl e
      | Inr g \<Rightarrow>
          (case clear_lines settings (gs\<lparr>grid := g, last_fall_time := current_time\<rparr>) of
             Inl e \<Rightarrow> Inl e
           | Inr (gs1, lines_cleared) \<Rightarrow>
               (let gs2 = add_cleared_lines gs1 lines_cleared
                in case new_tetrimino shape_idx of
                     Inl e \<Rightarrow> Inl e
                   | Inr nxt \<Rightarrow>
                       (let gs3 = gs2\<lparr>current_tetrimino := next_tetrimino gs2,
                                     next_tetrimino := nxt\<rparr>
                        in case valid_move (current_tetrimino gs3) (grid gs3) 0 0 of
                             Inl e \<Rightarrow> Inl e
                           | Inr ok \<Rightarrow>
                               if \<not> ok then
                                 (case music_pause settings of
                                    Inl e \<Rightarrow> Inl e
                                  | Inr u \<Rightarrow>
                                      (case play_sound settings (game_over_sound settings) of
                                         Inl e \<Rightarrow> Inl e
                                       | Inr u' \<Rightarrow> Inr (gs3\<lparr>game_over := True\<rparr>)))
                               else Inr gs3))))"

text \<open>The automatic fall of \<open>update\<close> (lines 331 to 358).\<close>

definition auto_fall :: "game_settings \<Rightarrow> game_state \<Rightarrow> int \<Rightarrow> int \<Rightarrow> error + game_state" where
  "auto_fall settings gs current_time shape_idx =
     (if current_time - last_fall_time gs > falling_speed gs then
        (case move (current_tetrimino gs) (grid gs) 0 1 of
           Inl e \<Rightarrow> Inl e
         | Inr (p, moved) \<Rightarrow>
             (case (if \<not> moved then lock_piece settings gs current_time shape_idx
                    else Inr (gs\<lparr>current_tetrimino := p\<rparr>)) of
                Inl e \<Rightarrow> Inl e
              | Inr gs' \<Rightarrow> Inr (gs'\<lparr>last_fall_time := current_time\<rparr>)))
      else Inr gs)"

definition update :: "game_settings \<Rightarrow> game_state \<Rightarrow> int \<Rightarrow> int \<Rightarrow> error + game_state" where
  "update settings gs current_time shape_idx =
     (if paused gs \<or> game_over gs then Inr gs
      else (case held_keys_loop settings gs current_time [K_LEFT, K_RIGHT, K_DOWN] of
              Inl e \<Rightarrow> Inl e
            | Inr gs' \<Rightarrow> auto_fall settings gs' current_time shape_idx))"

section \<open>The controller's commands (GameController.\_handle\_event)\<close>

text \<open>
  The events that touch the game state, each with the clock reading or the random draws
  its handler consumes. The other events (quit, help and high-score files, the mouse on
  the side bar) leave the game state alone; those of the side bar change the settings
  object, which is an input here.
\<close>

datatype event =
    KEYDOWN_r int int int
  | KEYDOWN_RETURN
  | KEYDOWN_f real
  | KEYDOWN_arrow key int
  | KEYDOWN_UP
  | KEYUP_arrow key

definition handle_event :: "game_settings \<Rightarrow> game_state \<Rightarrow> event \<Rightarrow> error + game_state" where
  "handle_event settings gs ev =
     (case ev of
        KEYDOWN_r ticks idx1 idx2 \<Rightarrow> reset gs ticks idx1 idx2
      | KEYDOWN_RETURN \<Rightarrow> Inr (gs\<lparr>paused := \<not> paused gs\<rparr>)
      | KEYDOWN_f now \<Rightarrow>
          if \<not> paused gs then
            (case clear_last_three_rows settings gs now of
               Inl e \<Rightarrow> Inl e
             | Inr (gs', fired) \<Rightarrow> Inr gs')
          else Inr gs
      | KEYDOWN_arrow k ticks \<Rightarrow>
          if \<not> paused gs then
            (case (case k of
                     K_LEFT \<Rightarrow> move (current_tetrimino gs) (grid gs) (- 1) 0
                   | K_RIGHT \<Rightarrow> move (current_tetrimino gs) (grid gs) 1 0
                   | K_DOWN \<Rightarrow> move (current_tetrimino gs) (grid gs) 0 1) of
               Inl e \<Rightarrow> Inl e
             | Inr (p, moved) \<Rightarrow>
                 Inr (gs\<lparr>held_keys := (held_keys gs)(k := True),
                          last_move_time := (last_move_time gs)(k := ticks),
                          current_tetrimino := p\<rparr>))
          else Inr gs
      | KEYDOWN_UP \<Rightarrow>
          if \<not> paused gs then
            (case rotate (current_tetrimino gs) (grid gs) settings of
               Inl e \<Rightarrow> Inl e
             | Inr (p, played) \<Rightarrow> Inr (gs\<lparr>current_tetrimino := p\<rparr>))
          else Inr gs
      | KEYUP_arrow k \<Rightarrow> Inr (gs\<lparr>held_keys := (held_keys gs)(k := False)\<rparr>))"

text \<open>\<open>random.randint(0, len(SHAPES) - 1)\<close> draws an index from 0 to 6.\<close>

definition drawn :: "int \<Rightarrow> bool" where
  "drawn idx = (0 \<le> idx \<and> idx \<le> 6)"

fun event_draws :: "event \<Rightarrow> bool" where
  "event_draws (KEYDOWN_r ticks idx1 idx2) = (drawn idx1 \<and> drawn idx2)"
| "event_draws ev = True"

text \<open>
  The game states a session can reach: the constructor's state, then any handled event
  and any frame's \<open>update\<close> that returns, at any clock readings, any draws of the
  generator and any settings.
\<close>

inductive reachable :: "game_state \<Rightarrow> bool" where
  constructed:
    "drawn idx1 \<Longrightarrow> drawn idx2 \<Longrightarrow> GameState gs0 ticks idx1 idx2 = Inr gs \<Longrightarrow> reachable gs"
| handled:
    "reachable gs \<Longrightarrow> event_draws ev \<Longrightarrow> handle_event settings gs ev = Inr gs'
       \<Longrightarrow> reachable gs'"
| updated:
    "reachable gs \<Longrightarrow> drawn idx \<Longrightarrow> update settings gs current_time idx = Inr gs'
       \<Longrightarrow> reachable gs'"

section \<open>Well-formed grids and the validity predicate\<close>

text \<open>The grid of the game: \<open>GRID_HEIGHT\<close> rows of \<open>GRID_WIDTH\<close> cells.\<close>

definition wf_grid :: "cell list list \<Rightarrow> bool" where
  "wf_grid g = (int (length g) = GRID_HEIGHT \<and> list_all (\<lambda>r. int (length r) = GRID_WIDTH) g)"

text \<open>
  The specification's validity rule for one occupied cell at offset \<open>(dx, dy)\<close>: the
  horizontal position lies in \<open>[0, W)\<close>, the vertical position is below \<open>H\<close>, and a cell
  with vertical position \<open>\<ge> 0\<close> lands on an empty grid cell.
\<close>

definition cell_ok :: "tetrimino \<Rightarrow> cell list list \<Rightarrow> int \<Rightarrow> int \<Rightarrow> nat \<times> nat \<Rightarrow> bool" where
  "cell_ok p g dx dy rc =
     (let x_pos = x p + int (snd rc) + dx;
          y_pos = y p + int (fst rc) + dy
      in 0 \<le> x_pos \<and> x_pos < GRID_WIDTH \<and> y_pos < GRID_HEIGHT \<and>
         (if 0 \<le> y_pos then g ! nat y_pos ! nat x_pos = Zero else True))"

definition valid_at :: "tetrimino \<Rightarrow> cell list list \<Rightarrow> int \<Rightarrow> int \<Rightarrow> bool" where
  "valid_at p g dx dy = list_all (cell_ok p g dx dy) (occupied (shape p))"

text \<open>
  The bounds part of validity, which does not read the grid: every occupied cell of the
  piece lies in a column of the grid and above its floor.
\<close>

definition cell_in_bounds :: "tetrimino \<Rightarrow> nat \<times> nat \<Rightarrow> bool" where
  "cell_in_bounds p rc =
     (0 \<le> x p + int (snd rc) \<and> x p + int (snd rc) < GRID_WIDTH \<and>
      y p + int (fst rc) < GRID_HEIGHT)"

definition in_bounds :: "tetrimino \<Rightarrow> bool" where
  "in_bounds p = list_all (cell_in_bounds p) (occupied (shape p))"

text \<open>
  The invariant of the reachable states: a grid of the right shape, both pieces within
  the bounds with their anchors at or below the top row, and a falling speed at or above
  the floor of 100.
\<close>

definition state_inv :: "game_state \<Rightarrow> bool" where
  "state_inv gs =
     (wf_grid (grid gs) \<and>
      in_bounds (current_tetrimino gs) \<and> 0 \<le> y (current_tetrimino gs) \<and>
      in_bounds (next_tetrimino gs) \<and> 0 \<le> y (next_tetrimino gs) \<and>
      100 \<le> falling_speed gs)"

text \<open>
  The rotation as the specification words it, \<open>new[i][j] = old[j][old_cols-1-i]\<close>: a
  quarter turn counter-clockwise ("rotate left").
\<close>

definition rotate_left :: "'a list list \<Rightarrow> 'a list list" where
  "rotate_left old =
     map (\<lambda>i. map (\<lambda>j. old ! j ! (length (hd old) - 1 - i)) [0..<length old])
       [0..<length (hd old)]"

text \<open>A full row: all of its cells are occupied.\<close>

definition full_row :: "cell list \<Rightarrow> bool" where
  "full_row r = list_all (\<lambda>c. c \<noteq> Zero) r"

text \<open>
  What \<open>clear_lines\<close> returns when it returns: the state with the score and the grid
  set, and the number of lines cleared.
\<close>

definition cleared :: "game_state \<Rightarrow> game_state \<times> int" where
  "cleared gs =
     (let new_grid = filter (list_ex (\<lambda>c. c = Zero)) (grid gs);
          lines_cleared = GRID_HEIGHT - int (length new_grid);
          gs1 = (if lines_cleared > 0
                 then gs\<lparr>score := score gs + 50 * (2 ^ nat lines_cleared - 1)\<rparr>
                 else gs)
      in (gs1\<lparr>grid := replicate (nat lines_cleared) (replicate (nat GRID_WIDTH) Zero) @ new_grid\<rparr>,
          lines_cleared))"

text \<open>The state after the lock loop, the line clearing and the speed-up of a lock event.\<close>

definition settled :: "game_state \<Rightarrow> cell list list \<Rightarrow> int \<Rightarrow> game_state" where
  "settled gs g t =
     add_cleared_lines (fst (cleared (gs\<lparr>grid := g, last_fall_time := t\<rparr>)))
       (snd (cleared (gs\<lparr>grid := g, last_fall_time := t\<rparr>)))"

text \<open>
  The audio side as \<open>_init_sounds\<close> leaves it when nothing fails: the mixer is
  initialised and the four sounds are loaded.
\<close>

definition audio_ready :: "game_settings \<Rightarrow> bool" where
  "audio_ready settings =
     (mixer_ready settings \<and> line_clear_sound settings \<noteq> None \<and>
      rotate_sound settings \<noteq> None \<and> game_over_sound settings \<noteq> None \<and>
      special_skill_sound settings \<noteq> None)"

text \<open>
  A result that keeps the invariant: a returned state satisfies it, and an exception is
  never an IndexError and occurs only when the audio side is not ready.
\<close>

definition keeps_inv :: "game_settings \<Rightarrow> error + game_state \<Rightarrow> bool" where
  "keeps_inv settings r =
     (case r of
        Inl e \<Rightarrow> e \<noteq> IndexError \<and> \<not> audio_ready settings
      | Inr gs' \<Rightarrow> state_inv gs')"

text \<open>Some cell of the bottom three rows is occupied.\<close>

definition bottom_occupied :: "cell list list \<Rightarrow> bool" where
  "bottom_occupied g = list_ex (list_ex (\<lambda>c. c \<noteq> Zero)) (drop (length g - 3) g)"

text \<open>
  The firing condition of the row crush: the cooldown has passed and some cell of the
  bottom three rows is occupied.
\<close>

definition crush_due :: "game_state \<Rightarrow> real \<Rightarrow> bool" where
  "crush_due gs now =
     (real_of_int SKILL_COOLDOWN \<le> now - last_skill_time gs \<and> bottom_occupied (grid gs))"

text \<open>An index pair inside the bottom three rows of the grid.\<close>

definition cell_in_band :: "int \<times> int \<Rightarrow> bool" where
  "cell_in_band rc =
     (GRID_HEIGHT - 3 \<le> fst rc \<and> fst rc < GRID_HEIGHT \<and> 0 \<le> snd rc \<and> snd rc < GRID_WIDTH)"

text \<open>The scoring law of the specification: \<open>50 \<times> (2^n - 1)\<close> points for \<open>n \<ge> 1\<close> lines.\<close>

definition line_award :: "nat \<Rightarrow> int" where
  "line_award n = (if 1 \<le> n then 50 * (2 ^ n - 1) else 0)"

section \<open>Concrete settings, pieces and grids\<close>

text \<open>
  The settings after an \<open>_init_sounds\<close> that loaded everything, and after one whose
  \<open>pygame.mixer.init()\<close> failed: no sound attribute exists, sound and music are off.
\<close>

definition loud_settings :: game_settings where
  "loud_settings =
     \<lparr>music_enabled = True, sound_enabled = True, repeat_delay = 100,
      line_clear_sound = Some (Sound ''music/line_clear.wav''),
      rotate_sound = Some (Sound ''music/rotate.wav''),
      game_over_sound = Some (Sound ''music/end.wav''),
      special_skill_sound = Some (Sound ''music/skill.wav''),
      mixer_ready = True\<rparr>"

definition silent_settings :: game_settings where
  "silent_settings =
     \<lparr>music_enabled = False, sound_enabled = False, repeat_delay = 100,
      line_clear_sound = None, rotate_sound = None,
      game_over_sound = None, special_skill_sound = None,
      mixer_ready = False\<rparr>"

definition O_piece :: tetrimino where
  "O_piece = \<lparr>shape = [[1, 1], [1, 1]], color = WHITE, x = 4, y = 0, rotation = 0\<rparr>"

definition empty_grid :: "cell list list" where
  "empty_grid = replicate 20 (replicate 10 Zero)"

definition L_piece :: tetrimino where
  "L_piece = \<lparr>shape = [[1, 1, 1], [0, 0, 1]], color = RED, x = 4, y = 0, rotation = 0\<rparr>"

text \<open>The state \<open>GameState\<close> builds at tick 0 when the generator draws 3 and then 1.\<close>

definition sample_state :: game_state where
  "sample_state =
     \<lparr>grid = empty_grid, score = 0, last_skill_time = - 45,
      current_tetrimino = O_piece, next_tetrimino = L_piece,
      falling_speed = 500, last_fall_time = 0, total_lines_cleared = 0,
      game_over = False, paused = False,
      held_keys = (\<lambda>k. False), last_move_time = (\<lambda>k. 0), move_delay = 1000\<rparr>"

text \<open>A grid with a full row between two rows that are not full.\<close>

definition stacked_grid :: "cell list list" where
  "stacked_grid =
     replicate 17 (replicate 10 Zero) @
       [Color RED # replicate 9 Zero,
        replicate 10 (Color WHITE),
        replicate 9 Zero @ [Color BLUE]]"

text \<open>
  Two rows from the floor that lack only columns 4 and 5, and the state in which the
  O piece rests in that gap.
\<close>

definition nearly_full_grid :: "cell list list" where
  "nearly_full_grid =
     replicate 18 (replicate 10 Zero) @
       replicate 2 (replicate 4 (Color RED) @ [Zero, Zero] @ replicate 4 (Color RED))"

definition landing_state :: game_state where
  "landing_state = sample_state\<lparr>grid := nearly_full_grid,
                                current_tetrimino := O_piece\<lparr>y := 18\<rparr>\<rparr>"

text \<open>
  A block under the spawn area: the O piece of \<open>sample_state\<close> rests on it at once, and
  the L piece that follows overlaps the locked O piece.
\<close>

definition topped_state :: game_state where
  "topped_state =
     sample_state\<lparr>grid := replicate 2 (replicate 10 Zero) @
                            [replicate 4 Zero @ [Color RED, Color RED] @ replicate 4 Zero] @
                            replicate 17 (replicate 10 Zero)\<rparr>"

section \<open>Indexing lemmas\<close>

lemma py_norm_in_range: "0 \<le> i \<Longrightarrow> i < int n \<Longrightarrow> py_norm n i = Inr (nat i)"
  by (simp add: py_norm_def)

lemma py_get_in_range: "0 \<le> i \<Longrightarrow> i < int (length xs) \<Longrightarrow> py_get xs i = Inr (xs ! nat i)"
  by (simp add: py_get_def py_norm_in_range)

lemma wf_grid_row_length:
  assumes "wf_grid g" "0 \<le> i" "i < GRID_HEIGHT"
  shows "int (length (g ! nat i)) = GRID_WIDTH"
proof -
  from assms have "nat i < length g" unfolding wf_grid_def by linarith
  with assms(1) show ?thesis by (simp add: wf_grid_def list_all_length)
qed

lemma py_get2_wf:
  assumes "wf_grid g" "0 \<le> i" "i < GRID_HEIGHT" "0 \<le> j" "j < GRID_WIDTH"
  shows "py_get2 g i j = Inr (g ! nat i ! nat j)"
proof -
  from assms have "py_get g i = Inr (g ! nat i)"
    by (simp add: py_get_in_range wf_grid_def)
  moreover from assms have "py_get (g ! nat i) j = Inr (g ! nat i ! nat j)"
    by (simp add: py_get_in_range wf_grid_row_length)
  ultimately show ?thesis by (simp add: py_get2_def)
qed

section \<open>valid\_move and move\<close>

lemma check_cells_wf:
  assumes "wf_grid g"
  shows "check_cells p g dx dy cs = Inr (list_all (cell_ok p g dx dy) cs)"
proof (induction cs)
  case Nil
  show ?case by simp
next
  case (Cons rc cs)
  obtain row col where rc: "rc = (row, col)" by (cases rc)
  show ?case
  proof (cases "0 \<le> x p + int col + dx \<and> x p + int col + dx < GRID_WIDTH
                \<and> y p + int row + dy < GRID_HEIGHT")
    case False
    then show ?thesis by (auto simp: rc cell_ok_def Let_def)
  next
    case inb: True
    show ?thesis
    proof (cases "0 \<le> y p + int row + dy")
      case True
      with inb assms have "py_get2 g (y p + int row + dy) (x p + int col + dx)
          = Inr (g ! nat (y p + int row + dy) ! nat (x p + int col + dx))"
        by (simp add: py_get2_wf)
      with True inb Cons.IH show ?thesis by (auto simp: rc cell_ok_def Let_def)
    next
      case False
      with inb Cons.IH show ?thesis by (auto simp: rc cell_ok_def Let_def)
    qed
  qed
qed

lemma valid_move_wf: "wf_grid g \<Longrightarrow> valid_move p g dx dy = Inr (valid_at p g dx dy)"
  by (simp add: valid_move_def valid_at_def check_cells_wf)

lemma cell_ok_shift:
  "cell_ok (p\<lparr>x := x p + dx, y := y p + dy\<rparr>) g 0 0 = cell_ok p g dx dy"
  by (rule ext) (simp add: cell_ok_def add.commute add.left_commute)

lemma valid_at_shift:
  "valid_at (p\<lparr>x := x p + dx, y := y p + dy\<rparr>) g 0 0 = valid_at p g dx dy"
  by (simp add: valid_at_def cell_ok_shift)

lemma move_wf:
  "wf_grid g \<Longrightarrow> move p g dx dy =
     Inr (if valid_at p g dx dy then (p\<lparr>x := x p + dx, y := y p + dy\<rparr>, True) else (p, False))"
  by (simp add: move_def valid_move_wf)

section \<open>Occupied cells and bounds\<close>

lemma set_occupied:
  "set (occupied sh) = {(row, col). row < length sh \<and> col < length (sh ! row) \<and> sh ! row ! col \<noteq> 0}"
  by (auto simp: occupied_def)

lemma cell_ok_in_bounds: "cell_ok p g 0 0 rc \<Longrightarrow> cell_in_bounds p rc"
  by (simp add: cell_ok_def cell_in_bounds_def Let_def)

lemma valid_at_in_bounds: "valid_at p g 0 0 \<Longrightarrow> in_bounds p"
  by (auto simp: valid_at_def in_bounds_def list_all_iff intro: cell_ok_in_bounds)

section \<open>rotate\<close>

lemma play_sound_simps:
  "play_sound st None = Inl AttributeError"
  "play_sound st (Some s) = Inr ()"
  by (simp_all add: play_sound_def)

lemma rotate_wf:
  assumes "wf_grid g"
  shows "rotate p g st =
     (if valid_at (p\<lparr>shape := zip_star (rev (shape p))\<rparr>) g 0 0
      then (case rotate_sound st of
              None \<Rightarrow> Inl AttributeError
            | Some s \<Rightarrow> Inr (p\<lparr>shape := zip_star (rev (shape p))\<rparr>, True))
      else Inr (p, False))"
  using assms
  by (cases "rotate_sound st") (simp_all add: rotate_def Let_def valid_move_wf play_sound_def)

lemma move_False_same: "move p g dx dy = Inr (p', False) \<Longrightarrow> p' = p"
  by (auto simp: move_def split: sum.splits if_splits)

lemma rotate_frame:
  "rotate p g st = Inr (p', b) \<Longrightarrow>
     x p' = x p \<and> y p' = y p \<and> color p' = color p \<and> rotation p' = rotation p \<and>
     (if b then shape p' = zip_star (rev (shape p)) else p' = p)"
  by (auto simp: rotate_def Let_def split: sum.splits if_splits)

section \<open>Writing into the grid\<close>

lemma py_set_in_range:
  "0 \<le> i \<Longrightarrow> i < int (length xs) \<Longrightarrow> py_set xs i v = Inr (xs[nat i := v])"
  by (simp add: py_set_def py_norm_in_range)

lemma py_set2_wf:
  assumes "wf_grid g" "0 \<le> i" "i < GRID_HEIGHT" "0 \<le> j" "j < GRID_WIDTH"
  shows "py_set2 g i j v = Inr (g[nat i := (g ! nat i)[nat j := v]])"
proof -
  from assms have "py_get g i = Inr (g ! nat i)"
    by (simp add: py_get_in_range wf_grid_def)
  moreover from assms have "py_set (g ! nat i) j v = Inr ((g ! nat i)[nat j := v])"
    by (simp add: py_set_in_range wf_grid_row_length)
  moreover from assms have "py_set g i ((g ! nat i)[nat j := v]) = Inr (g[nat i := (g ! nat i)[nat j := v]])"
    by (simp add: py_set_in_range wf_grid_def)
  ultimately show ?thesis by (simp add: py_set2_def)
qed

lemma wf_grid_update_cell:
  assumes "wf_grid g" "0 \<le> i" "i < GRID_HEIGHT"
  shows "wf_grid (g[nat i := (g ! nat i)[k := v]])"
proof -
  from assms have len: "int (length (g ! nat i)) = GRID_WIDTH" by (rule wf_grid_row_length)
  from assms(1) have "\<forall>r\<in>set g. int (length r) = GRID_WIDTH"
    by (simp add: wf_grid_def list_all_iff)
  with len have "\<forall>r\<in>set (g[nat i := (g ! nat i)[k := v]]). int (length r) = GRID_WIDTH"
    by (auto dest!: set_update_subset_insert [THEN subsetD])
  with assms(1) show ?thesis by (simp add: wf_grid_def list_all_iff)
qed

lemma lock_cells_wf:
  assumes "0 \<le> y p"
  shows "wf_grid g \<Longrightarrow> list_all (cell_in_bounds p) cs \<Longrightarrow>
         \<exists>g'. lock_cells p g cs = Inr g' \<and> wf_grid g'"
proof (induction cs arbitrary: g)
  case Nil
  then show ?case by simp
next
  case (Cons rc cs)
  obtain row col where rc: "rc = (row, col)" by (cases rc)
  from Cons.prems(2) have b: "0 \<le> x p + int col" "x p + int col < GRID_WIDTH"
      "y p + int row < GRID_HEIGHT"
    by (simp_all add: rc cell_in_bounds_def)
  from assms have y0: "0 \<le> y p + int row" by simp
  let ?g = "g[nat (y p + int row) := (g ! nat (y p + int row))[nat (x p + int col) := Color (color p)]]"
  from Cons.prems(1) y0 b have s: "py_set2 g (y p + int row) (x p + int col) (Color (color p)) = Inr ?g"
    by (simp add: py_set2_wf)
  from Cons.prems(1) y0 b have "wf_grid ?g" by (simp add: wf_grid_update_cell)
  moreover from Cons.prems(2) have "list_all (cell_in_bounds p) cs" by simp
  ultimately have "\<exists>g'. lock_cells p ?g cs = Inr g' \<and> wf_grid g'" by (rule Cons.IH)
  with s show ?case by (simp add: rc)
qed

lemma py_set2_length: "py_set2 g i j v = Inr g' \<Longrightarrow> length g' = length g"
  by (auto simp: py_set2_def py_set_def split: sum.splits)

lemma lock_cells_length: "lock_cells p g cs = Inr g' \<Longrightarrow> length g' = length g"
proof (induction cs arbitrary: g)
  case Nil
  then show ?case by simp
next
  case (Cons rc cs)
  obtain row col where rc: "rc = (row, col)" by (cases rc)
  from Cons.prems obtain g1 where
    s: "py_set2 g (y p + int row) (x p + int col) (Color (color p)) = Inr g1"
    and l: "lock_cells p g1 cs = Inr g'"
    by (auto simp: rc split: sum.splits)
  from l have "length g' = length g1" by (rule Cons.IH)
  with s show ?case by (simp add: py_set2_length)
qed

section \<open>clear\_lines\<close>

lemma full_row_iff: "list_ex (\<lambda>c. c = Zero) r = (\<not> full_row r)"
  by (simp add: full_row_def list_all_iff list_ex_iff)

lemma cleared_count:
  assumes "int (length (grid gs)) = GRID_HEIGHT"
  shows "snd (cleared gs) = int (length (filter full_row (grid gs)))"
proof -
  have "length (filter full_row (grid gs)) + length (filter (\<lambda>r. \<not> full_row r) (grid gs))
          = length (grid gs)"
    by (rule sum_length_filter_compl)
  with assms show ?thesis
    by (simp add: cleared_def Let_def full_row_iff [abs_def])
qed

lemma cleared_grid:
  "grid (fst (cleared gs)) =
     replicate (nat (snd (cleared gs))) (replicate (nat GRID_WIDTH) Zero)
       @ filter (\<lambda>r. \<not> full_row r) (grid gs)"
  by (simp add: cleared_def Let_def full_row_iff [abs_def])

lemma cleared_score:
  "score (fst (cleared gs)) =
     score gs + (if 1 \<le> snd (cleared gs) then 50 * (2 ^ nat (snd (cleared gs)) - 1) else 0)"
  by (simp add: cleared_def Let_def)

lemma clear_lines_eq:
  "clear_lines st gs =
     (if 0 < snd (cleared gs) \<and> line_clear_sound st = None then Inl AttributeError
      else Inr (cleared gs))"
  by (cases "line_clear_sound st") (simp_all add: clear_lines_def cleared_def Let_def play_sound_def)

section \<open>The lock event and the invariant of update\<close>

lemma cleared_other_fields:
  "current_tetrimino (fst (cleared gs)) = current_tetrimino gs"
  "next_tetrimino (fst (cleared gs)) = next_tetrimino gs"
  "falling_speed (fst (cleared gs)) = falling_speed gs"
  "total_lines_cleared (fst (cleared gs)) = total_lines_cleared gs"
  "game_over (fst (cleared gs)) = game_over gs"
  "paused (fst (cleared gs)) = paused gs"
  "last_fall_time (fst (cleared gs)) = last_fall_time gs"
  "last_skill_time (fst (cleared gs)) = last_skill_time gs"
  by (simp_all add: cleared_def Let_def)

lemma add_cleared_lines_fields:
  "grid (add_cleared_lines gs n) = grid gs"
  "score (add_cleared_lines gs n) = score gs"
  "current_tetrimino (add_cleared_lines gs n) = current_tetrimino gs"
  "next_tetrimino (add_cleared_lines gs n) = next_tetrimino gs"
  "game_over (add_cleared_lines gs n) = game_over gs"
  "paused (add_cleared_lines gs n) = paused gs"
  "last_fall_time (add_cleared_lines gs n) = last_fall_time gs"
  "last_skill_time (add_cleared_lines gs n) = last_skill_time gs"
  by (simp_all add: add_cleared_lines_def Let_def)

lemma add_cleared_lines_speed:
  "falling_speed (add_cleared_lines gs n) =
     (if 10 \<le> total_lines_cleared gs + n then max 100 (falling_speed gs - 50)
      else falling_speed gs)"
  "total_lines_cleared (add_cleared_lines gs n) =
     (if 10 \<le> total_lines_cleared gs + n then total_lines_cleared gs + n - 10
      else total_lines_cleared gs + n)"
  by (simp_all add: add_cleared_lines_def Let_def)

text \<open>The lock event, once the lock loop, the draw and the validity check have returned.\<close>

lemma lock_piece_eq:
  assumes "lock_cells (current_tetrimino gs) (grid gs) (occupied (shape (current_tetrimino gs)))
             = Inr g"
    and "new_tetrimino idx = Inr nxt"
    and "valid_move (next_tetrimino gs) (grid (settled gs g t)) 0 0 = Inr ok"
  shows "lock_piece st gs t idx =
     (if 0 < snd (cleared (gs\<lparr>grid := g, last_fall_time := t\<rparr>)) \<and> line_clear_sound st = None
      then Inl AttributeError
      else if ok
      then Inr ((settled gs g t)\<lparr>current_tetrimino := next_tetrimino gs, next_tetrimino := nxt\<rparr>)
      else if \<not> mixer_ready st then Inl PygameError
      else if game_over_sound st = None then Inl AttributeError
      else Inr ((settled gs g t)\<lparr>current_tetrimino := next_tetrimino gs, next_tetrimino := nxt,
                                   game_over := True\<rparr>))"
proof (cases "0 < snd (cleared (gs\<lparr>grid := g, last_fall_time := t\<rparr>)) \<and> line_clear_sound st = None")
  case True
  with assms(1) show ?thesis by (simp add: lock_piece_def clear_lines_eq)
next
  case False
  then have c: "clear_lines st (gs\<lparr>grid := g, last_fall_time := t\<rparr>)
      = Inr (cleared (gs\<lparr>grid := g, last_fall_time := t\<rparr>))"
    by (simp add: clear_lines_eq)
  obtain gs1 n where cl: "cleared (gs\<lparr>grid := g, last_fall_time := t\<rparr>) = (gs1, n)"
    by (cases "cleared (gs\<lparr>grid := g, last_fall_time := t\<rparr>)")
  have st: "settled gs g t = add_cleared_lines gs1 n" by (simp add: settled_def cl)
  have nx: "next_tetrimino (add_cleared_lines gs1 n) = next_tetrimino gs"
    using cleared_other_fields(2) [of "gs\<lparr>grid := g, last_fall_time := t\<rparr>"]
    by (simp add: add_cleared_lines_fields cl)
  from assms(3) have v: "valid_move (next_tetrimino gs) (grid (add_cleared_lines gs1 n)) 0 0 = Inr ok"
    by (simp add: st)
  show ?thesis
  proof (cases ok)
    case True
    with False assms(1,2) c cl v nx show ?thesis
      by (simp add: lock_piece_def Let_def st)
  next
    case ok: False
    show ?thesis
    proof (cases "game_over_sound st")
      case None
      with False ok assms(1,2) c cl v nx show ?thesis
        by (simp add: lock_piece_def Let_def st music_pause_def play_sound_def)
    next
      case (Some snd')
      with False ok assms(1,2) c cl v nx show ?thesis
        by (simp add: lock_piece_def Let_def st music_pause_def play_sound_def)
    qed
  qed
qed

lemma lock_piece_InrD:
  assumes "lock_piece st gs t idx = Inr gs'"
  shows "\<exists>g nxt ok.
           lock_cells (current_tetrimino gs) (grid gs) (occupied (shape (current_tetrimino gs)))
             = Inr g \<and>
           clear_lines st (gs\<lparr>grid := g, last_fall_time := t\<rparr>)
             = Inr (cleared (gs\<lparr>grid := g, last_fall_time := t\<rparr>)) \<and>
           new_tetrimino idx = Inr nxt \<and>
           valid_move (next_tetrimino gs) (grid (settled gs g t)) 0 0 = Inr ok \<and>
           gs' = (settled gs g t)\<lparr>current_tetrimino := next_tetrimino gs, next_tetrimino := nxt,
                                   game_over := (game_over gs \<or> \<not> ok)\<rparr>"
proof -
  from assms obtain g where
    g: "lock_cells (current_tetrimino gs) (grid gs) (occupied (shape (current_tetrimino gs)))
          = Inr g"
    by (cases "lock_cells (current_tetrimino gs) (grid gs)
          (occupied (shape (current_tetrimino gs)))") (simp_all add: lock_piece_def)
  from assms g have c: "clear_lines st (gs\<lparr>grid := g, last_fall_time := t\<rparr>)
      = Inr (cleared (gs\<lparr>grid := g, last_fall_time := t\<rparr>))"
    by (auto simp: lock_piece_def clear_lines_eq split: if_splits)
  from assms g c obtain nxt where n: "new_tetrimino idx = Inr nxt"
    by (cases "new_tetrimino idx") (simp_all add: lock_piece_def Let_def split: prod.splits)
  obtain gs1 k where cl: "cleared (gs\<lparr>grid := g, last_fall_time := t\<rparr>) = (gs1, k)"
    by (cases "cleared (gs\<lparr>grid := g, last_fall_time := t\<rparr>)")
  have nx1: "next_tetrimino gs1 = next_tetrimino gs"
    using cleared_other_fields(2) [of "gs\<lparr>grid := g, last_fall_time := t\<rparr>"] by (simp add: cl)
  have gr: "grid (settled gs g t) = grid gs1"
    by (simp add: settled_def cl add_cleared_lines_fields)
  from assms g c cl n obtain ok where
    "valid_move (next_tetrimino gs) (grid gs1) 0 0 = Inr ok"
    by (cases "valid_move (next_tetrimino gs) (grid gs1) 0 0")
       (simp_all add: lock_piece_def Let_def add_cleared_lines_fields nx1)
  then have v: "valid_move (next_tetrimino gs) (grid (settled gs g t)) 0 0 = Inr ok"
    by (simp add: gr)
  have go: "game_over (settled gs g t) = game_over gs"
    by (simp add: settled_def add_cleared_lines_fields cleared_other_fields)
  from assms lock_piece_eq [OF g n v, of st]
  have "gs' = (settled gs g t)\<lparr>current_tetrimino := next_tetrimino gs, next_tetrimino := nxt,
      game_over := (game_over gs \<or> \<not> ok)\<rparr>"
    using go by (cases ok) (auto split: if_splits)
  with g c n v show ?thesis by blast
qed

lemma drawn_cases:
  "drawn idx \<Longrightarrow> idx = 0 \<or> idx = 1 \<or> idx = 2 \<or> idx = 3 \<or> idx = 4 \<or> idx = 5 \<or> idx = 6"
  unfolding drawn_def by arith

lemma spawn_evaluated:
  "list_all (\<lambda>idx. case new_tetrimino idx of Inl e \<Rightarrow> False
                     | Inr p \<Rightarrow> in_bounds p \<and> y p = 0) [0, 1, 2, 3, 4, 5, 6]"
  by code_simp

lemma new_tetrimino_drawn:
  assumes "drawn idx"
  shows "\<exists>p. new_tetrimino idx = Inr p \<and> in_bounds p \<and> y p = 0"
proof -
  from assms have "idx \<in> set [0, 1, 2, 3, 4, 5, 6]"
    using drawn_cases by auto
  with spawn_evaluated
  have "case new_tetrimino idx of Inl e \<Rightarrow> False | Inr p \<Rightarrow> in_bounds p \<and> y p = 0"
    unfolding list_all_iff by blast
  then show ?thesis by (cases "new_tetrimino idx") auto
qed

lemma in_bounds_shift:
  "valid_at p g dx dy \<Longrightarrow> in_bounds (p\<lparr>x := x p + dx, y := y p + dy\<rparr>)"
  by (rule valid_at_in_bounds [of _ g]) (simp add: valid_at_shift)

lemma move_keeps_bounds:
  assumes "wf_grid g" "in_bounds p" "0 \<le> y p" "0 \<le> dy"
  shows "\<exists>p' b. move p g dx dy = Inr (p', b) \<and> in_bounds p' \<and> 0 \<le> y p'
           \<and> b = valid_at p g dx dy"
  using assms by (simp add: move_wf in_bounds_shift)

lemma rotate_keeps_bounds:
  assumes "wf_grid g" "in_bounds p" "0 \<le> y p"
  shows "(\<exists>p' b. rotate p g st = Inr (p', b) \<and> in_bounds p' \<and> 0 \<le> y p') \<or>
         (rotate p g st = Inl AttributeError \<and> rotate_sound st = None)"
  using assms
  by (cases "rotate_sound st") (auto simp: rotate_wf dest: valid_at_in_bounds)

lemma held_key_step_inv:
  assumes "state_inv gs"
  shows "\<exists>gs'. held_key_step st gs t k = Inr gs' \<and> state_inv gs' \<and>
           grid gs' = grid gs \<and> score gs' = score gs \<and> falling_speed gs' = falling_speed gs
           \<and> total_lines_cleared gs' = total_lines_cleared gs
           \<and> last_fall_time gs' = last_fall_time gs \<and> game_over gs' = game_over gs
           \<and> paused gs' = paused gs"
proof -
  from assms have a: "wf_grid (grid gs)" "in_bounds (current_tetrimino gs)"
      "0 \<le> y (current_tetrimino gs)"
    by (simp_all add: state_inv_def)
  obtain dx dy :: int where
    d: "(dx, dy) = (case k of K_LEFT \<Rightarrow> (- 1, 0) | K_RIGHT \<Rightarrow> (1, 0) | K_DOWN \<Rightarrow> (0, 1))"
    and dy: "0 \<le> dy"
    by (cases k) auto
  have m: "(case k of K_LEFT \<Rightarrow> move (current_tetrimino gs) (grid gs) (- 1) 0
            | K_RIGHT \<Rightarrow> move (current_tetrimino gs) (grid gs) 1 0
            | K_DOWN \<Rightarrow> move (current_tetrimino gs) (grid gs) 0 1)
          = move (current_tetrimino gs) (grid gs) dx dy"
    using d by (cases k) auto
  from move_keeps_bounds [OF a dy, of dx] obtain p' b where
    mv: "move (current_tetrimino gs) (grid gs) dx dy = Inr (p', b)"
    and b: "in_bounds p'" "0 \<le> y p'" by blast
  from assms b show ?thesis
    by (auto simp: held_key_step_def Let_def m mv state_inv_def)
qed

lemma held_keys_loop_inv:
  "state_inv gs \<Longrightarrow>
     \<exists>gs'. held_keys_loop st gs t ks = Inr gs' \<and> state_inv gs' \<and>
           grid gs' = grid gs \<and> score gs' = score gs \<and> falling_speed gs' = falling_speed gs
           \<and> total_lines_cleared gs' = total_lines_cleared gs
           \<and> last_fall_time gs' = last_fall_time gs \<and> game_over gs' = game_over gs
           \<and> paused gs' = paused gs"
proof (induction ks arbitrary: gs)
  case Nil
  then show ?case by simp
next
  case (Cons k ks)
  from held_key_step_inv [OF Cons.prems, of st t k] obtain gs1 where
    s: "held_key_step st gs t k = Inr gs1" and i: "state_inv gs1"
    and f: "grid gs1 = grid gs" "score gs1 = score gs" "falling_speed gs1 = falling_speed gs"
      "total_lines_cleared gs1 = total_lines_cleared gs"
      "last_fall_time gs1 = last_fall_time gs" "game_over gs1 = game_over gs"
      "paused gs1 = paused gs"
    by blast
  from Cons.IH [OF i] f s show ?case by auto
qed

lemma cleared_length:
  assumes "int (length (grid gs)) = GRID_HEIGHT"
  shows "int (length (grid (fst (cleared gs)))) = GRID_HEIGHT"
proof -
  have "length (filter full_row (grid gs)) + length (filter (\<lambda>r. \<not> full_row r) (grid gs))
          = length (grid gs)"
    by (rule sum_length_filter_compl)
  with assms show ?thesis
    by (simp add: cleared_grid cleared_count)
qed

lemma cleared_wf:
  assumes "wf_grid (grid gs)"
  shows "wf_grid (grid (fst (cleared gs)))"
proof -
  from assms have "int (length (grid (fst (cleared gs)))) = GRID_HEIGHT"
    by (simp add: cleared_length wf_grid_def)
  moreover from assms
  have "list_all (\<lambda>r. int (length r) = GRID_WIDTH) (grid (fst (cleared gs)))"
    by (auto simp: cleared_grid wf_grid_def list_all_iff GRID_WIDTH_def)
  ultimately show ?thesis by (simp add: wf_grid_def)
qed

lemma settled_fields:
  "grid (settled gs g t) = grid (fst (cleared (gs\<lparr>grid := g\<rparr>)))"
  "score (settled gs g t) = score (fst (cleared (gs\<lparr>grid := g\<rparr>)))"
  "current_tetrimino (settled gs g t) = current_tetrimino gs"
  "next_tetrimino (settled gs g t) = next_tetrimino gs"
  "game_over (settled gs g t) = game_over gs"
  "paused (settled gs g t) = paused gs"
  "last_fall_time (settled gs g t) = t"
  "last_skill_time (settled gs g t) = last_skill_time gs"
  by (simp_all add: settled_def add_cleared_lines_fields cleared_other_fields)
     (simp_all add: cleared_def Let_def)

lemma settled_speed:
  "falling_speed (settled gs g t) =
     (if 10 \<le> total_lines_cleared gs + snd (cleared (gs\<lparr>grid := g\<rparr>))
      then max 100 (falling_speed gs - 50) else falling_speed gs)"
  "total_lines_cleared (settled gs g t) =
     (if 10 \<le> total_lines_cleared gs + snd (cleared (gs\<lparr>grid := g\<rparr>))
      then total_lines_cleared gs + snd (cleared (gs\<lparr>grid := g\<rparr>)) - 10
      else total_lines_cleared gs + snd (cleared (gs\<lparr>grid := g\<rparr>)))"
  by (simp_all add: settled_def add_cleared_lines_speed cleared_other_fields)
     (simp_all add: cleared_def Let_def)

lemma keeps_inv_ready:
  assumes "keeps_inv st r" "audio_ready st"
  shows "\<exists>gs'. r = Inr gs' \<and> state_inv gs'"
  using assms by (cases r) (simp_all add: keeps_inv_def)

lemma keeps_inv_no_IndexError: "keeps_inv st r \<Longrightarrow> r \<noteq> Inl IndexError"
  by (cases r) (auto simp: keeps_inv_def)

lemma lock_piece_inv:
  assumes "state_inv gs" "drawn idx"
  shows "keeps_inv st (lock_piece st gs t idx)"
proof -
  let ?p = "current_tetrimino gs"
  from assms(1) have a: "wf_grid (grid gs)" "in_bounds ?p" "0 \<le> y ?p"
      "in_bounds (next_tetrimino gs)" "0 \<le> y (next_tetrimino gs)" "100 \<le> falling_speed gs"
    by (simp_all add: state_inv_def)
  from lock_cells_wf [OF a(3) a(1)] a(2) obtain g where
    g: "lock_cells ?p (grid gs) (occupied (shape ?p)) = Inr g" and wg: "wf_grid g"
    by (auto simp: in_bounds_def)
  from new_tetrimino_drawn [OF assms(2)] obtain nxt where
    n: "new_tetrimino idx = Inr nxt" and nb: "in_bounds nxt" "y nxt = 0" by blast
  from wg have ws: "wf_grid (grid (settled gs g t))"
    by (simp add: settled_fields cleared_wf)
  then have v: "valid_move (next_tetrimino gs) (grid (settled gs g t)) 0 0
      = Inr (valid_at (next_tetrimino gs) (grid (settled gs g t)) 0 0)"
    by (rule valid_move_wf)
  from a(6) have sp: "100 \<le> falling_speed (settled gs g t)"
    by (simp add: settled_speed)
  from ws a nb sp have i: "state_inv ((settled gs g t)\<lparr>current_tetrimino := next_tetrimino gs,
      next_tetrimino := nxt, game_over := b\<rparr>)" for b
    by (simp add: state_inv_def)
  from ws a nb sp have i': "state_inv ((settled gs g t)\<lparr>current_tetrimino := next_tetrimino gs,
      next_tetrimino := nxt\<rparr>)"
    by (simp add: state_inv_def)
  from i i' show ?thesis
    unfolding lock_piece_eq [OF g n v]
    by (auto simp: keeps_inv_def audio_ready_def)
qed

lemma auto_fall_inv:
  assumes "state_inv gs" "drawn idx"
  shows "keeps_inv st (auto_fall st gs t idx)"
proof (cases "t - last_fall_time gs > falling_speed gs")
  case False
  with assms show ?thesis by (simp add: auto_fall_def keeps_inv_def)
next
  case True
  from assms(1) have a: "wf_grid (grid gs)" by (simp add: state_inv_def)
  show ?thesis
  proof (cases "valid_at (current_tetrimino gs) (grid gs) 0 1")
    case v: True
    from v have "in_bounds ((current_tetrimino gs)\<lparr>x := x (current_tetrimino gs) + 0,
        y := y (current_tetrimino gs) + 1\<rparr>)"
      by (rule in_bounds_shift)
    with assms(1) v True a show ?thesis
      by (simp add: auto_fall_def move_wf state_inv_def keeps_inv_def)
  next
    case v: False
    from lock_piece_inv [OF assms, of st t] show ?thesis
    proof (cases "lock_piece st gs t idx")
      case (Inl e)
      with lock_piece_inv [OF assms, of st t] v True a show ?thesis
        by (simp add: auto_fall_def move_wf keeps_inv_def)
    next
      case (Inr gs1)
      with lock_piece_inv [OF assms, of st t] have "state_inv gs1" by (simp add: keeps_inv_def)
      then have "state_inv (gs1\<lparr>last_fall_time := t\<rparr>)" by (simp add: state_inv_def)
      with Inr v True a show ?thesis
        by (simp add: auto_fall_def move_wf keeps_inv_def)
    qed
  qed
qed

lemma update_inv:
  assumes "state_inv gs" "drawn idx"
  shows "keeps_inv st (update st gs t idx)"
proof (cases "paused gs \<or> game_over gs")
  case True
  with assms show ?thesis by (simp add: update_def keeps_inv_def)
next
  case False
  from held_keys_loop_inv [OF assms(1), of st t "[K_LEFT, K_RIGHT, K_DOWN]"] obtain gs1 where
    h: "held_keys_loop st gs t [K_LEFT, K_RIGHT, K_DOWN] = Inr gs1" and i: "state_inv gs1"
    by blast
  from auto_fall_inv [OF i assms(2), of st t] h False show ?thesis
    by (simp add: update_def)
qed

section \<open>clear\_last\_three\_rows\<close>

lemma set_bottom_cells: "set bottom_cells = {rc. cell_in_band rc}"
  by (auto simp: bottom_cells_def cell_in_band_def)

lemma any_block_wf:
  assumes "wf_grid g"
  shows "list_all cell_in_band cs \<Longrightarrow>
         any_block g cs = Inr (list_ex (\<lambda>rc. g ! nat (fst rc) ! nat (snd rc) \<noteq> Zero) cs)"
proof (induction cs)
  case Nil
  show ?case by simp
next
  case (Cons rc cs)
  obtain r c where rc: "rc = (r, c)" by (cases rc)
  from Cons.prems have b: "0 \<le> r" "r < GRID_HEIGHT" "0 \<le> c" "c < GRID_WIDTH"
    by (simp_all add: rc cell_in_band_def GRID_HEIGHT_def)
  with assms have "py_get2 g r c = Inr (g ! nat r ! nat c)" by (simp add: py_get2_wf)
  with Cons show ?case by (simp add: rc)
qed

lemma zero_cells_wf:
  "wf_grid g \<Longrightarrow> list_all cell_in_band cs \<Longrightarrow>
     \<exists>g'. zero_cells g cs = Inr g' \<and> wf_grid g' \<and>
           take (length g' - 3) g' = take (length g - 3) g"
proof (induction cs arbitrary: g)
  case Nil
  then show ?case by simp
next
  case (Cons rc cs)
  obtain r c where rc: "rc = (r, c)" by (cases rc)
  from Cons.prems(2) have b: "0 \<le> r" "r < GRID_HEIGHT" "0 \<le> c" "c < GRID_WIDTH"
    and lo: "GRID_HEIGHT - 3 \<le> r"
    by (simp_all add: rc cell_in_band_def GRID_HEIGHT_def)
  let ?g = "g[nat r := (g ! nat r)[nat c := Zero]]"
  from Cons.prems(1) b have s: "py_set2 g r c Zero = Inr ?g" by (simp add: py_set2_wf)
  from Cons.prems(1) b have w: "wf_grid ?g" by (simp add: wf_grid_update_cell)
  from Cons.prems(2) have "list_all cell_in_band cs" by simp
  with w obtain g' where z: "zero_cells ?g cs = Inr g'" and w': "wf_grid g'"
    and t: "take (length g' - 3) g' = take (length ?g - 3) ?g"
    using Cons.IH by blast
  from Cons.prems(1) lo have "length g - 3 \<le> nat r" by (simp add: wf_grid_def) linarith
  then have "take (length ?g - 3) ?g = take (length g - 3) g" by simp
  with s z w' t show ?case by (simp add: rc)
qed

lemma bottom_occupied_wf:
  assumes "wf_grid g"
  shows "list_ex (\<lambda>rc. g ! nat (fst rc) ! nat (snd rc) \<noteq> Zero) bottom_cells = bottom_occupied g"
proof
  assume "list_ex (\<lambda>rc. g ! nat (fst rc) ! nat (snd rc) \<noteq> Zero) bottom_cells"
  then obtain r c where b: "cell_in_band (r, c)" and nz: "g ! nat r ! nat c \<noteq> Zero"
    by (auto simp: list_ex_iff set_bottom_cells)
  from b assms have r: "length g - 3 \<le> nat r" "nat r < length g"
    by (auto simp: cell_in_band_def wf_grid_def GRID_HEIGHT_def)
  from b have "0 \<le> r" "r < GRID_HEIGHT" by (simp_all add: cell_in_band_def GRID_HEIGHT_def)
  with assms have "int (length (g ! nat r)) = GRID_WIDTH" by (rule wf_grid_row_length)
  with b have c: "nat c < length (g ! nat r)" by (simp add: cell_in_band_def) linarith
  from r have "g ! nat r \<in> set (drop (length g - 3) g)"
    by (auto simp: set_conv_nth intro!: exI [of _ "nat r - (length g - 3)"])
  moreover from c nz have "\<exists>v\<in>set (g ! nat r). v \<noteq> Zero"
    by (auto simp: set_conv_nth)
  ultimately show "bottom_occupied g" by (auto simp: bottom_occupied_def list_ex_iff)
next
  assume "bottom_occupied g"
  then obtain row v where row: "row \<in> set (drop (length g - 3) g)" and v: "v \<in> set row" "v \<noteq> Zero"
    by (auto simp: bottom_occupied_def list_ex_iff)
  from row obtain i where i: "i < length g - (length g - 3)" and ri: "row = g ! (length g - 3 + i)"
    by (auto simp: set_conv_nth)
  from v obtain j where j: "j < length row" and vj: "v = row ! j" by (auto simp: set_conv_nth)
  define k where "k = length g - 3 + i"
  from i have kl: "k < length g" "length g - 3 \<le> k" by (simp_all add: k_def)
  from ri have rk: "row = g ! k" by (simp add: k_def)
  from assms kl have rb: "GRID_HEIGHT - 3 \<le> int k" "int k < GRID_HEIGHT"
    by (auto simp: wf_grid_def GRID_HEIGHT_def)
  from assms kl have "int (length (g ! k)) = GRID_WIDTH"
    by (simp add: wf_grid_def list_all_length)
  with j rk have jb: "int j < GRID_WIDTH" by simp
  from rb jb have "cell_in_band (int k, int j)" by (simp add: cell_in_band_def)
  moreover from v vj rk have "g ! nat (int k) ! nat (int j) \<noteq> Zero" by simp
  ultimately show "list_ex (\<lambda>rc. g ! nat (fst rc) ! nat (snd rc) \<noteq> Zero) bottom_cells"
    unfolding list_ex_iff set_bottom_cells by (intro bexI [of _ "(int k, int j)"]) auto
qed

lemma clear_last_three_rows_wf:
  assumes "wf_grid (grid gs)"
  shows "clear_last_three_rows st gs now =
     (if real_of_int SKILL_COOLDOWN \<le> now - last_skill_time gs \<and> bottom_occupied (grid gs)
      then (case special_skill_sound st of
              None \<Rightarrow> Inl AttributeError
            | Some s \<Rightarrow>
                Inr (gs\<lparr>grid := replicate 3 (replicate (nat GRID_WIDTH) Zero)
                                  @ take (length (grid gs) - 3) (grid gs),
                         score := score gs + 100,
                         last_skill_time := now\<rparr>, True))
      else Inr (gs, False))"
proof -
  have band: "list_all cell_in_band bottom_cells"
    by (simp add: list_all_iff set_bottom_cells)
  from any_block_wf [OF assms band] bottom_occupied_wf [OF assms]
  have a: "any_block (grid gs) bottom_cells = Inr (bottom_occupied (grid gs))" by simp
  from zero_cells_wf [OF assms band] obtain g' where
    z: "zero_cells (grid gs) bottom_cells = Inr g'"
    and t: "take (length g' - 3) g' = take (length (grid gs) - 3) (grid gs)" by blast
  show ?thesis
    by (cases "special_skill_sound st")
       (simp_all add: clear_last_three_rows_def a z t GRID_HEIGHT_def Let_def play_sound_def)
qed

section \<open>Events and reachable states\<close>

lemma wf_empty_grid:
  "wf_grid (replicate (nat GRID_HEIGHT) (replicate (nat GRID_WIDTH) Zero))"
  by (simp add: wf_grid_def list_all_iff GRID_HEIGHT_def GRID_WIDTH_def)

lemma reset_inv:
  assumes "drawn idx1" "drawn idx2"
  shows "\<exists>gs'. reset gs ticks idx1 idx2 = Inr gs' \<and> state_inv gs'"
proof -
  from new_tetrimino_drawn [OF assms(1)] obtain p1 where
    p1: "new_tetrimino idx1 = Inr p1" "in_bounds p1" "y p1 = 0" by blast
  from new_tetrimino_drawn [OF assms(2)] obtain p2 where
    p2: "new_tetrimino idx2 = Inr p2" "in_bounds p2" "y p2 = 0" by blast
  from p1 p2 show ?thesis
    by (simp add: reset_def state_inv_def wf_empty_grid)
qed

lemma GameState_inv:
  assumes "drawn idx1" "drawn idx2" "GameState gs0 ticks idx1 idx2 = Inr gs"
  shows "state_inv gs"
proof -
  from reset_inv [OF assms(1,2), of gs0 ticks] obtain gs1 where
    "reset gs0 ticks idx1 idx2 = Inr gs1" "state_inv gs1" by blast
  with assms(3) show ?thesis by (auto simp: GameState_def state_inv_def)
qed

lemma wf_grid_crushed:
  assumes "wf_grid g"
  shows "wf_grid (replicate 3 (replicate (nat GRID_WIDTH) Zero) @ take (length g - 3) g)"
proof -
  from assms have "int (length g) = GRID_HEIGHT" by (simp add: wf_grid_def)
  then have l: "int (length (replicate 3 (replicate (nat GRID_WIDTH) (Zero::cell))
      @ take (length g - 3) g)) = GRID_HEIGHT"
    by (simp add: GRID_HEIGHT_def)
  from assms have "\<forall>r\<in>set (take (length g - 3) g). int (length r) = GRID_WIDTH"
    by (auto simp: wf_grid_def list_all_iff dest: in_set_takeD)
  then have "list_all (\<lambda>r. int (length r) = GRID_WIDTH)
      (replicate 3 (replicate (nat GRID_WIDTH) Zero) @ take (length g - 3) g)"
    by (auto simp: list_all_iff GRID_WIDTH_def)
  with l show ?thesis unfolding wf_grid_def by blast
qed

lemma handle_event_inv:
  assumes "state_inv gs" "event_draws ev"
  shows "keeps_inv st (handle_event st gs ev)"
proof (cases ev)
  case (KEYDOWN_r ticks idx1 idx2)
  with assms(2) reset_inv [of idx1 idx2 gs ticks] show ?thesis
    by (auto simp: handle_event_def keeps_inv_def)
next
  case KEYDOWN_RETURN
  with assms(1) show ?thesis by (simp add: handle_event_def state_inv_def keeps_inv_def)
next
  case (KEYDOWN_f now)
  from assms(1) have w: "wf_grid (grid gs)" by (simp add: state_inv_def)
  from assms(1) w wf_grid_crushed [OF w] show ?thesis
    by (cases "special_skill_sound st")
       (simp_all add: KEYDOWN_f handle_event_def clear_last_three_rows_wf state_inv_def
          keeps_inv_def audio_ready_def)
next
  case (KEYDOWN_arrow k ticks)
  from assms(1) have a: "wf_grid (grid gs)" "in_bounds (current_tetrimino gs)"
      "0 \<le> y (current_tetrimino gs)"
    by (simp_all add: state_inv_def)
  obtain dx dy :: int where
    d: "(dx, dy) = (case k of K_LEFT \<Rightarrow> (- 1, 0) | K_RIGHT \<Rightarrow> (1, 0) | K_DOWN \<Rightarrow> (0, 1))"
    and dy: "0 \<le> dy"
    by (cases k) auto
  have m: "(case k of K_LEFT \<Rightarrow> move (current_tetrimino gs) (grid gs) (- 1) 0
            | K_RIGHT \<Rightarrow> move (current_tetrimino gs) (grid gs) 1 0
            | K_DOWN \<Rightarrow> move (current_tetrimino gs) (grid gs) 0 1)
          = move (current_tetrimino gs) (grid gs) dx dy"
    using d by (cases k) auto
  from move_keeps_bounds [OF a dy, of dx] obtain p' b where
    mv: "move (current_tetrimino gs) (grid gs) dx dy = Inr (p', b)"
    and b: "in_bounds p'" "0 \<le> y p'" by blast
  from assms(1) b show ?thesis
    by (auto simp: KEYDOWN_arrow handle_event_def Let_def m mv state_inv_def keeps_inv_def)
next
  case KEYDOWN_UP
  from assms(1) have a: "wf_grid (grid gs)" "in_bounds (current_tetrimino gs)"
      "0 \<le> y (current_tetrimino gs)"
    by (simp_all add: state_inv_def)
  from rotate_keeps_bounds [OF a, of st] assms(1) show ?thesis
    by (auto simp: KEYDOWN_UP handle_event_def state_inv_def keeps_inv_def audio_ready_def)
next
  case (KEYUP_arrow k)
  with assms(1) show ?thesis by (simp add: handle_event_def state_inv_def keeps_inv_def)
qed

lemma reachable_inv: "reachable gs \<Longrightarrow> state_inv gs"
proof (induction rule: reachable.induct)
  case (constructed idx1 idx2 gs0 ticks gs)
  then show ?case by (rule GameState_inv)
next
  case (handled gs ev st gs')
  with handle_event_inv [of gs ev st] show ?case by (simp add: keeps_inv_def)
next
  case (updated gs idx st current_time gs')
  with update_inv [of gs idx st current_time] show ?case by (simp add: keeps_inv_def)
qed

section \<open>Frame of the held-key loop\<close>

lemma held_key_step_frame:
  assumes "held_key_step st gs t k = Inr gs'"
  shows "grid gs' = grid gs \<and> score gs' = score gs \<and> game_over gs' = game_over gs \<and>
         paused gs' = paused gs \<and> next_tetrimino gs' = next_tetrimino gs \<and>
         falling_speed gs' = falling_speed gs \<and> last_fall_time gs' = last_fall_time gs \<and>
         total_lines_cleared gs' = total_lines_cleared gs"
  using assms
  by (auto simp: held_key_step_def Let_def split: if_splits sum.splits prod.splits)

lemma held_keys_loop_frame:
  "held_keys_loop st gs t ks = Inr gs' \<Longrightarrow>
     grid gs' = grid gs \<and> score gs' = score gs \<and> game_over gs' = game_over gs \<and>
     paused gs' = paused gs \<and> next_tetrimino gs' = next_tetrimino gs \<and>
     falling_speed gs' = falling_speed gs \<and> last_fall_time gs' = last_fall_time gs \<and>
     total_lines_cleared gs' = total_lines_cleared gs"
proof (induction ks arbitrary: gs)
  case Nil
  then show ?case by simp
next
  case (Cons k ks)
  from Cons.prems obtain gs1 where s: "held_key_step st gs t k = Inr gs1"
    and l: "held_keys_loop st gs1 t ks = Inr gs'"
    by (auto split: sum.splits)
  from Cons.IH [OF l] held_key_step_frame [OF s] show ?case by simp
qed

section \<open>The falling speed\<close>

lemma lock_piece_speed:
  assumes "lock_cells (current_tetrimino gs) (grid gs) (occupied (shape (current_tetrimino gs)))
             = Inr g"
    and "lock_piece st gs t idx = Inr gs'"
  shows "falling_speed gs' = falling_speed (settled gs g t) \<and>
         total_lines_cleared gs' = total_lines_cleared (settled gs g t)"
  using lock_piece_InrD [OF assms(2)] assms(1) by auto

lemma settled_speed_le:
  "100 \<le> falling_speed gs \<Longrightarrow>
     100 \<le> falling_speed (settled gs g t) \<and> falling_speed (settled gs g t) \<le> falling_speed gs"
  by (simp add: settled_speed)

text \<open>The automatic fall, when it is due and returns.\<close>

lemma auto_fall_InrD:
  assumes "auto_fall st gs t idx = Inr gs'" "t - last_fall_time gs > falling_speed gs"
  shows "\<exists>p moved gs1.
           move (current_tetrimino gs) (grid gs) 0 1 = Inr (p, moved) \<and>
           (if \<not> moved then lock_piece st gs t idx else Inr (gs\<lparr>current_tetrimino := p\<rparr>))
             = Inr gs1 \<and>
           gs' = gs1\<lparr>last_fall_time := t\<rparr>"
  using assms
  by (auto simp: auto_fall_def split: sum.splits prod.splits if_splits)

lemma auto_fall_speed:
  assumes "auto_fall st gs t idx = Inr gs'" "100 \<le> falling_speed gs"
  shows "100 \<le> falling_speed gs' \<and> falling_speed gs' \<le> falling_speed gs"
proof (cases "t - last_fall_time gs > falling_speed gs")
  case False
  with assms show ?thesis by (simp add: auto_fall_def)
next
  case True
  from auto_fall_InrD [OF assms(1) True] obtain p moved gs1 where
    m: "move (current_tetrimino gs) (grid gs) 0 1 = Inr (p, moved)"
    and s: "(if \<not> moved then lock_piece st gs t idx else Inr (gs\<lparr>current_tetrimino := p\<rparr>))
        = Inr gs1"
    and e: "gs' = gs1\<lparr>last_fall_time := t\<rparr>"
    by blast
  show ?thesis
  proof (cases moved)
    case True
    with s e assms(2) show ?thesis by auto
  next
    case False
    with s have l: "lock_piece st gs t idx = Inr gs1" by simp
    from lock_piece_InrD [OF l] obtain g where
      "falling_speed gs1 = falling_speed (settled gs g t)" by auto
    with settled_speed_le [OF assms(2), of g t] e show ?thesis by simp
  qed
qed

lemma update_InrD:
  assumes "update st gs t idx = Inr gs'" "\<not> (paused gs \<or> game_over gs)"
  shows "\<exists>gs1. held_keys_loop st gs t [K_LEFT, K_RIGHT, K_DOWN] = Inr gs1 \<and>
               auto_fall st gs1 t idx = Inr gs'"
  using assms by (auto simp: update_def split: sum.splits)

lemma update_speed:
  assumes "update st gs t idx = Inr gs'" "100 \<le> falling_speed gs"
  shows "100 \<le> falling_speed gs' \<and> falling_speed gs' \<le> falling_speed gs"
proof (cases "paused gs \<or> game_over gs")
  case True
  with assms show ?thesis by (simp add: update_def)
next
  case False
  from update_InrD [OF assms(1) False] obtain gs1 where
    h: "held_keys_loop st gs t [K_LEFT, K_RIGHT, K_DOWN] = Inr gs1"
    and a: "auto_fall st gs1 t idx = Inr gs'"
    by blast
  from held_keys_loop_frame [OF h] have "falling_speed gs1 = falling_speed gs" by simp
  with auto_fall_speed [OF a] assms(2) show ?thesis by simp
qed

lemma clear_last_three_rows_frame:
  assumes "clear_last_three_rows st gs now = Inr (gs', fired)"
  shows "falling_speed gs' = falling_speed gs \<and> game_over gs' = game_over gs"
  using assms
  by (auto simp: clear_last_three_rows_def Let_def split: if_splits sum.splits)

lemma handle_event_speed:
  assumes "handle_event st gs ev = Inr gs'"
  shows "falling_speed gs' = (case ev of KEYDOWN_r a b c \<Rightarrow> 500 | _ \<Rightarrow> falling_speed gs)"
  using assms
  by (cases ev)
     (auto simp: handle_event_def reset_def dest: clear_last_three_rows_frame
           split: if_splits sum.splits prod.splits)

section \<open>The game-over flag\<close>

lemma auto_fall_game_over:
  assumes "auto_fall st gs t idx = Inr gs'" "\<not> game_over gs"
  shows "game_over gs' \<longleftrightarrow>
           (t - last_fall_time gs > falling_speed gs \<and>
            move (current_tetrimino gs) (grid gs) 0 1 = Inr (current_tetrimino gs, False) \<and>
            current_tetrimino gs' = next_tetrimino gs \<and>
            valid_move (current_tetrimino gs') (grid gs') 0 0 = Inr False)"
proof (cases "t - last_fall_time gs > falling_speed gs")
  case False
  with assms show ?thesis by (simp add: auto_fall_def)
next
  case True
  from auto_fall_InrD [OF assms(1) True] obtain p moved gs1 where
    m: "move (current_tetrimino gs) (grid gs) 0 1 = Inr (p, moved)"
    and s: "(if \<not> moved then lock_piece st gs t idx else Inr (gs\<lparr>current_tetrimino := p\<rparr>))
        = Inr gs1"
    and e: "gs' = gs1\<lparr>last_fall_time := t\<rparr>"
    by blast
  show ?thesis
  proof (cases moved)
    case True
    with s e assms(2) m show ?thesis by auto
  next
    case False
    with m have p: "p = current_tetrimino gs" by (simp add: move_False_same)
    from False s have l: "lock_piece st gs t idx = Inr gs1" by simp
    from lock_piece_InrD [OF l] obtain g nxt ok where
      v: "valid_move (next_tetrimino gs) (grid (settled gs g t)) 0 0 = Inr ok"
      and g1: "gs1 = (settled gs g t)\<lparr>current_tetrimino := next_tetrimino gs,
          next_tetrimino := nxt, game_over := (game_over gs \<or> \<not> ok)\<rparr>"
      by blast
    from g1 e v assms(2) True False m p show ?thesis by auto
  qed
qed

lemma handle_event_game_over:
  assumes "handle_event st gs ev = Inr gs'" "game_over gs'"
  shows "game_over gs"
  using assms
  by (cases ev)
     (auto simp: handle_event_def reset_def dest: clear_last_three_rows_frame
           split: if_splits sum.splits prod.splits)

section \<open>A reachable state\<close>

lemma GameState_sample: "GameState sample_state 0 3 1 = Inr sample_state"
proof -
  have "new_tetrimino 3 = Inr O_piece" "new_tetrimino 1 = Inr L_piece" by code_simp+
  then show ?thesis
    by (simp add: GameState_def reset_def sample_state_def empty_grid_def
        GRID_HEIGHT_def GRID_WIDTH_def SKILL_COOLDOWN_def INITIAL_MOVE_DELAY_def)
qed

lemma reachable_sample: "reachable sample_state"
proof -
  have "drawn 3" "drawn 1" by (simp_all add: drawn_def)
  then show ?thesis using GameState_sample by (rule reachable.constructed)
qed

lemma audio_ready_loud: "audio_ready loud_settings"
  by (simp add: audio_ready_def loud_settings_def)

lemma cleared_count_grid_only:
  "snd (cleared (gs\<lparr>grid := g, last_fall_time := t\<rparr>)) = snd (cleared (gs\<lparr>grid := g\<rparr>))"
  by (simp add: cleared_def Let_def)

lemma clear_lines_InrD: "clear_lines st gs = Inr (gs', n) \<Longrightarrow> (gs', n) = cleared gs"
  by (simp add: clear_lines_eq split: if_splits)

section \<open>The calls that read a sound\<close>

text \<open>
  When \<open>_init_sounds\<close> failed, the four calls that read a sound attribute or pause the
  music raise instead of returning: a rotation that is applied, a lock that clears a
  line, a row crush that fires, and a lock that ends the game. Every other path of the
  game core is independent of the settings' sounds.
\<close>

lemma rotate_without_sound:
  assumes "wf_grid g" "valid_at (p\<lparr>shape := zip_star (rev (shape p))\<rparr>) g 0 0"
    and "rotate_sound st = None"
  shows "rotate p g st = Inl AttributeError"
  using assms by (simp add: rotate_wf)

lemma clear_lines_without_sound:
  assumes "0 < snd (cleared gs)" "line_clear_sound st = None"
  shows "clear_lines st gs = Inl AttributeError"
  using assms by (simp add: clear_lines_eq)

lemma clear_last_three_rows_without_sound:
  assumes "wf_grid (grid gs)" "crush_due gs now" "special_skill_sound st = None"
  shows "clear_last_three_rows st gs now = Inl AttributeError"
  using assms(2,3) by (simp add: clear_last_three_rows_wf [OF assms(1)] crush_due_def)

lemma silent_calls_raise:
  "rotate L_piece empty_grid silent_settings = Inl AttributeError \<and>
   clear_lines silent_settings (sample_state\<lparr>grid := stacked_grid\<rparr>) = Inl AttributeError \<and>
   clear_last_three_rows silent_settings landing_state 0 = Inl AttributeError \<and>
   update silent_settings topped_state 501 0 = Inl PygameError \<and>
   update (silent_settings\<lparr>mixer_ready := True\<rparr>) topped_state 501 0 = Inl AttributeError"
proof -
  have a: "(case rotate L_piece empty_grid silent_settings of
      Inl e \<Rightarrow> e = AttributeError | Inr v \<Rightarrow> False)" by code_simp
  have b: "(case clear_lines silent_settings (sample_state\<lparr>grid := stacked_grid\<rparr>) of
      Inl e \<Rightarrow> e = AttributeError | Inr v \<Rightarrow> False)" by code_simp
  have w: "wf_grid (grid landing_state)" by code_simp
  have o: "bottom_occupied (grid landing_state)" by code_simp
  have "crush_due landing_state 0"
    using o by (simp add: crush_due_def landing_state_def sample_state_def SKILL_COOLDOWN_def)
  then have c: "clear_last_three_rows silent_settings landing_state 0 = Inl AttributeError"
    using w by (simp add: clear_last_three_rows_without_sound silent_settings_def)
  have d: "(case update silent_settings topped_state 501 0 of
      Inl e \<Rightarrow> e = PygameError | Inr v \<Rightarrow> False)" by code_simp
  have e: "(case update (silent_settings\<lparr>mixer_ready := True\<rparr>) topped_state 501 0 of
      Inl e \<Rightarrow> e = AttributeError | Inr v \<Rightarrow> False)" by code_simp
  from a b c d e show ?thesis by (simp split: sum.splits)
qed

section \<open>The claims\<close>

text \<open>
  C1. The candidate shape of \<open>rotate\<close>. On the L piece at its spawn position over
  the empty grid, with the rotate sound loaded, the candidate is kept, and it is
  \<open>zip(*shape[::-1])\<close>, the quarter turn clockwise \<open>[[0, 1], [0, 1], [1, 1]]\<close>,
  whereas the turn the claim and the comment in the source describe,
  \<open>new[i][j] = old[j][old_cols-1-i]\<close>, is \<open>[[1, 1], [1, 0], [1, 0]]\<close>.
\<close>

theorem rotate_turns_clockwise:
  "rotate L_piece empty_grid loud_settings
     = Inr (L_piece\<lparr>shape := [[0, 1], [0, 1], [1, 1]]\<rparr>, True) \<and>
   rotate_left (shape L_piece) = [[1, 1], [1, 0], [1, 0]]"
  by code_simp



text \<open>
  C3. On a grid of \<open>GRID_HEIGHT\<close> rows, whenever \<open>clear_lines\<close> returns, it has
  added \<open>50 \<times> (2^n - 1)\<close> points for the \<open>n \<ge> 1\<close> full rows it removed and nothing for
  none; it returns whenever the line-clear sound is loaded. A lock event that returns
  has changed the score by exactly that award for the full rows of the grid with the
  piece written in: 50, 150, 350 and 750 points for one to four lines.
\<close>

theorem scoring_law:
  assumes "int (length (grid gs)) = GRID_HEIGHT"
  shows "(\<forall>gs' n. clear_lines st gs = Inr (gs', n) \<longrightarrow>
            n = int (length (filter full_row (grid gs))) \<and>
            score gs' = score gs + line_award (length (filter full_row (grid gs)))) \<and>
         (line_clear_sound st \<noteq> None \<longrightarrow> (\<exists>gs' n. clear_lines st gs = Inr (gs', n))) \<and>
         (\<forall>g t idx gs'.
            lock_cells (current_tetrimino gs) (grid gs) (occupied (shape (current_tetrimino gs)))
              = Inr g \<and> lock_piece st gs t idx = Inr gs'
            \<longrightarrow> score gs' = score gs + line_award (length (filter full_row g))) \<and>
         line_award 0 = 0 \<and> line_award 1 = 50 \<and> line_award 2 = 150 \<and>
         line_award 3 = 350 \<and> line_award 4 = 750"
proof -
  have law: "score (fst (cleared s)) = score s + line_award (length (filter full_row (grid s)))"
    if "int (length (grid s)) = GRID_HEIGHT" for s
    using that by (simp add: cleared_score cleared_count line_award_def)
  have a: "\<forall>gs' n. clear_lines st gs = Inr (gs', n) \<longrightarrow>
            n = int (length (filter full_row (grid gs))) \<and>
            score gs' = score gs + line_award (length (filter full_row (grid gs)))"
  proof (intro allI impI)
    fix gs' k
    assume "clear_lines st gs = Inr (gs', k)"
    then have "(gs', k) = cleared gs" by (rule clear_lines_InrD)
    then have "gs' = fst (cleared gs)" "k = snd (cleared gs)" by (simp_all add: prod_eq_iff)
    with law [OF assms] cleared_count [OF assms]
    show "k = int (length (filter full_row (grid gs))) \<and>
            score gs' = score gs + line_award (length (filter full_row (grid gs)))"
      by simp
  qed
  have b: "line_clear_sound st \<noteq> None \<longrightarrow> (\<exists>gs' n. clear_lines st gs = Inr (gs', n))"
  proof
    assume "line_clear_sound st \<noteq> None"
    then have "clear_lines st gs = Inr (fst (cleared gs), snd (cleared gs))"
      by (simp add: clear_lines_eq)
    then show "\<exists>gs' n. clear_lines st gs = Inr (gs', n)" by blast
  qed
  have lock: "score gs' = score gs + line_award (length (filter full_row g))"
    if l: "lock_cells (current_tetrimino gs) (grid gs) (occupied (shape (current_tetrimino gs)))
            = Inr g"
      and p: "lock_piece st gs t idx = Inr gs'" for g t idx gs'
  proof -
    from lock_piece_InrD [OF p] l
    have "score gs' = score (fst (cleared (gs\<lparr>grid := g\<rparr>)))"
      by (auto simp: settled_fields)
    moreover from l assms have "int (length (grid (gs\<lparr>grid := g\<rparr>))) = GRID_HEIGHT"
      by (simp add: lock_cells_length)
    ultimately show ?thesis using law [of "gs\<lparr>grid := g\<rparr>"] by simp
  qed
  have tab: "line_award 0 = 0 \<and> line_award 1 = 50 \<and> line_award 2 = 150 \<and>
      line_award 3 = 350 \<and> line_award 4 = 750"
    by (simp add: line_award_def)
  from a b lock tab show ?thesis by blast
qed

theorem scoring_law_witness:
  "int (length (grid landing_state)) = GRID_HEIGHT \<and>
   (\<exists>g gs'. lock_cells (current_tetrimino landing_state) (grid landing_state)
               (occupied (shape (current_tetrimino landing_state))) = Inr g \<and>
            length (filter full_row g) = 2 \<and>
            lock_piece loud_settings landing_state 0 0 = Inr gs' \<and>
            score gs' = score landing_state + 150) \<and>
   (\<exists>gs' n. clear_lines loud_settings (sample_state\<lparr>grid := stacked_grid\<rparr>) = Inr (gs', n) \<and>
            n = 1 \<and> score gs' = 50)"
proof -
  let ?g = "replicate 18 (replicate 10 Zero) @
      replicate 2 (replicate 4 (Color RED) @ [Color WHITE, Color WHITE] @ replicate 4 (Color RED))"
  have h: "int (length (grid landing_state)) = GRID_HEIGHT" by code_simp
  have l: "lock_cells (current_tetrimino landing_state) (grid landing_state)
      (occupied (shape (current_tetrimino landing_state))) = Inr ?g" by code_simp
  have n: "length (filter full_row ?g) = 2" by code_simp
  have i: "state_inv landing_state" by code_simp
  have d: "drawn 0" by (simp add: drawn_def)
  from keeps_inv_ready [OF lock_piece_inv [OF i d, of loud_settings 0] audio_ready_loud]
  obtain gs' where p: "lock_piece loud_settings landing_state 0 0 = Inr gs'" by blast
  from scoring_law [OF h, of loud_settings] l p n
  have s: "score gs' = score landing_state + 150"
    by (metis (no_types, lifting))
  let ?gs = "sample_state\<lparr>grid := stacked_grid\<rparr>"
  have h2: "int (length (grid ?gs)) = GRID_HEIGHT" by code_simp
  have f2: "length (filter full_row (grid ?gs)) = 1" by code_simp
  have s2: "line_clear_sound loud_settings \<noteq> None" by (simp add: loud_settings_def)
  have sc: "score ?gs = 0" by (simp add: sample_state_def)
  from scoring_law [OF h2, of loud_settings] s2 obtain gs2 k where
    c: "clear_lines loud_settings ?gs = Inr (gs2, k)" by blast
  with scoring_law [OF h2, of loud_settings]
  have "k = int (length (filter full_row (grid ?gs)))"
    and "score gs2 = score ?gs + line_award (length (filter full_row (grid ?gs)))"
    by blast+
  with f2 sc have "k = 1" "score gs2 = 50" by (simp_all add: line_award_def)
  with h l n p s c show ?thesis by blast
qed

text \<open>
  C4. At a lock event that returns, the lines that \<open>clear_lines\<close> reported join the
  running total; a total of ten or more sets the falling speed to \<open>max(100, speed - 50)\<close>
  and takes exactly ten off the total, and otherwise speed and total are as they were.
  Three lock events of four lines each, from a total of zero, speed the fall up once and
  leave the total at two. In every reachable state the falling speed is at least 100,
  no \<open>update\<close> raises it, and no handled event but the reset changes it.
\<close>

theorem speed_up_law:
  "(\<forall>g t idx gs'.
      lock_cells (current_tetrimino gs) (grid gs) (occupied (shape (current_tetrimino gs)))
        = Inr g \<and>
      lock_piece st gs t idx = Inr gs'
      \<longrightarrow> (\<exists>gs1 n.
             clear_lines st (gs\<lparr>grid := g, last_fall_time := t\<rparr>) = Inr (gs1, n) \<and>
             (if 10 \<le> total_lines_cleared gs + n
              then falling_speed gs' = max 100 (falling_speed gs - 50) \<and>
                   total_lines_cleared gs' = total_lines_cleared gs + n - 10
              else falling_speed gs' = falling_speed gs \<and>
                   total_lines_cleared gs' = total_lines_cleared gs + n))) \<and>
   (total_lines_cleared gs = 0 \<longrightarrow>
      total_lines_cleared (add_cleared_lines (add_cleared_lines gs 4) 4) = 8 \<and>
      falling_speed (add_cleared_lines (add_cleared_lines gs 4) 4) = falling_speed gs \<and>
      total_lines_cleared
        (add_cleared_lines (add_cleared_lines (add_cleared_lines gs 4) 4) 4) = 2 \<and>
      falling_speed
        (add_cleared_lines (add_cleared_lines (add_cleared_lines gs 4) 4) 4)
        = max 100 (falling_speed gs - 50)) \<and>
   (reachable gs \<longrightarrow>
      100 \<le> falling_speed gs \<and>
      (\<forall>st' t idx gs'. update st' gs t idx = Inr gs'
         \<longrightarrow> 100 \<le> falling_speed gs' \<and> falling_speed gs' \<le> falling_speed gs) \<and>
      (\<forall>st' ev gs'. handle_event st' gs ev = Inr gs'
         \<longrightarrow> falling_speed gs' = (case ev of KEYDOWN_r a b c \<Rightarrow> 500 | _ \<Rightarrow> falling_speed gs)))"
proof -
  have a: "\<forall>g t idx gs'.
      lock_cells (current_tetrimino gs) (grid gs) (occupied (shape (current_tetrimino gs)))
        = Inr g \<and>
      lock_piece st gs t idx = Inr gs'
      \<longrightarrow> (\<exists>gs1 n.
             clear_lines st (gs\<lparr>grid := g, last_fall_time := t\<rparr>) = Inr (gs1, n) \<and>
             (if 10 \<le> total_lines_cleared gs + n
              then falling_speed gs' = max 100 (falling_speed gs - 50) \<and>
                   total_lines_cleared gs' = total_lines_cleared gs + n - 10
              else falling_speed gs' = falling_speed gs \<and>
                   total_lines_cleared gs' = total_lines_cleared gs + n))"
  proof (intro allI impI)
    fix g t idx gs'
    assume h: "lock_cells (current_tetrimino gs) (grid gs)
          (occupied (shape (current_tetrimino gs))) = Inr g \<and>
        lock_piece st gs t idx = Inr gs'"
    then have p: "lock_piece st gs t idx = Inr gs'" by blast
    from lock_piece_InrD [OF p] h
    have c: "clear_lines st (gs\<lparr>grid := g, last_fall_time := t\<rparr>)
        = Inr (cleared (gs\<lparr>grid := g, last_fall_time := t\<rparr>))"
      by auto
    define gs1 where "gs1 = fst (cleared (gs\<lparr>grid := g, last_fall_time := t\<rparr>))"
    define n where "n = snd (cleared (gs\<lparr>grid := g\<rparr>))"
    from c have c': "clear_lines st (gs\<lparr>grid := g, last_fall_time := t\<rparr>) = Inr (gs1, n)"
      by (simp add: gs1_def n_def prod_eq_iff cleared_count_grid_only)
    from h have "falling_speed gs' = falling_speed (settled gs g t) \<and>
        total_lines_cleared gs' = total_lines_cleared (settled gs g t)"
      by (blast dest: lock_piece_speed)
    then have "if 10 \<le> total_lines_cleared gs + n
           then falling_speed gs' = max 100 (falling_speed gs - 50) \<and>
                total_lines_cleared gs' = total_lines_cleared gs + n - 10
           else falling_speed gs' = falling_speed gs \<and>
                total_lines_cleared gs' = total_lines_cleared gs + n"
      by (simp add: settled_speed n_def)
    with c' show "\<exists>gs1 n.
             clear_lines st (gs\<lparr>grid := g, last_fall_time := t\<rparr>) = Inr (gs1, n) \<and>
             (if 10 \<le> total_lines_cleared gs + n
              then falling_speed gs' = max 100 (falling_speed gs - 50) \<and>
                   total_lines_cleared gs' = total_lines_cleared gs + n - 10
              else falling_speed gs' = falling_speed gs \<and>
                   total_lines_cleared gs' = total_lines_cleared gs + n)"
      by blast
  qed
  have b: "total_lines_cleared gs = 0 \<longrightarrow>
      total_lines_cleared (add_cleared_lines (add_cleared_lines gs 4) 4) = 8 \<and>
      falling_speed (add_cleared_lines (add_cleared_lines gs 4) 4) = falling_speed gs \<and>
      total_lines_cleared
        (add_cleared_lines (add_cleared_lines (add_cleared_lines gs 4) 4) 4) = 2 \<and>
      falling_speed
        (add_cleared_lines (add_cleared_lines (add_cleared_lines gs 4) 4) 4)
        = max 100 (falling_speed gs - 50)"
    by (simp add: add_cleared_lines_speed)
  have c: "reachable gs \<longrightarrow>
      100 \<le> falling_speed gs \<and>
      (\<forall>st' t idx gs'. update st' gs t idx = Inr gs'
         \<longrightarrow> 100 \<le> falling_speed gs' \<and> falling_speed gs' \<le> falling_speed gs) \<and>
      (\<forall>st' ev gs'. handle_event st' gs ev = Inr gs'
         \<longrightarrow> falling_speed gs' = (case ev of KEYDOWN_r a b c \<Rightarrow> 500 | _ \<Rightarrow> falling_speed gs))"
  proof
    assume r: "reachable gs"
    from reachable_inv [OF r] have s: "100 \<le> falling_speed gs" by (simp add: state_inv_def)
    with update_speed handle_event_speed
    show "100 \<le> falling_speed gs \<and>
      (\<forall>st' t idx gs'. update st' gs t idx = Inr gs'
         \<longrightarrow> 100 \<le> falling_speed gs' \<and> falling_speed gs' \<le> falling_speed gs) \<and>
      (\<forall>st' ev gs'. handle_event st' gs ev = Inr gs'
         \<longrightarrow> falling_speed gs' = (case ev of KEYDOWN_r a b c \<Rightarrow> 500 | _ \<Rightarrow> falling_speed gs))"
      by blast
  qed
  show ?thesis by (rule conjI [OF a conjI [OF b c]])
qed

theorem speed_up_law_witness:
  "(\<exists>g gs1 gs'.
      lock_cells (current_tetrimino landing_state) (grid landing_state)
        (occupied (shape (current_tetrimino landing_state))) = Inr g \<and>
      clear_lines loud_settings
        (landing_state\<lparr>total_lines_cleared := 9, grid := g, last_fall_time := 0\<rparr>)
        = Inr (gs1, 2) \<and>
      lock_piece loud_settings (landing_state\<lparr>total_lines_cleared := 9\<rparr>) 0 0 = Inr gs' \<and>
      falling_speed gs' = 450 \<and> total_lines_cleared gs' = 1) \<and>
   reachable sample_state \<and>
   (\<exists>gs'. update loud_settings sample_state 501 0 = Inr gs' \<and> falling_speed gs' \<le> 500)"
proof -
  let ?st = "landing_state\<lparr>total_lines_cleared := 9\<rparr>"
  let ?g = "replicate 18 (replicate 10 Zero) @
      replicate 2 (replicate 4 (Color RED) @ [Color WHITE, Color WHITE] @ replicate 4 (Color RED))"
  have l: "lock_cells (current_tetrimino ?st) (grid ?st)
      (occupied (shape (current_tetrimino ?st))) = Inr ?g" by code_simp
  have l': "lock_cells (current_tetrimino landing_state) (grid landing_state)
      (occupied (shape (current_tetrimino landing_state))) = Inr ?g" by code_simp
  have n: "snd (cleared (?st\<lparr>grid := ?g, last_fall_time := 0\<rparr>)) = 2" by code_simp
  have s: "line_clear_sound loud_settings \<noteq> None" by (simp add: loud_settings_def)
  then have c: "clear_lines loud_settings (?st\<lparr>grid := ?g, last_fall_time := 0\<rparr>)
      = Inr (fst (cleared (?st\<lparr>grid := ?g, last_fall_time := 0\<rparr>)), 2)"
    using n by (simp add: clear_lines_eq prod_eq_iff)
  have i: "state_inv ?st" by code_simp
  have d: "drawn 0" by (simp add: drawn_def)
  from keeps_inv_ready [OF lock_piece_inv [OF i d, of loud_settings 0] audio_ready_loud]
  obtain gs' where p: "lock_piece loud_settings ?st 0 0 = Inr gs'" by blast
  have f: "falling_speed ?st = 500" "total_lines_cleared ?st = 9"
    by (simp_all add: landing_state_def sample_state_def)
  from speed_up_law [of ?st loud_settings] l p
  have "\<exists>gs1 k. clear_lines loud_settings (?st\<lparr>grid := ?g, last_fall_time := 0\<rparr>)
        = Inr (gs1, k) \<and>
      (if 10 \<le> total_lines_cleared ?st + k
       then falling_speed gs' = max 100 (falling_speed ?st - 50) \<and>
            total_lines_cleared gs' = total_lines_cleared ?st + k - 10
       else falling_speed gs' = falling_speed ?st \<and>
            total_lines_cleared gs' = total_lines_cleared ?st + k)"
    by blast
  with c have "if 10 \<le> total_lines_cleared ?st + 2
      then falling_speed gs' = max 100 (falling_speed ?st - 50) \<and>
           total_lines_cleared gs' = total_lines_cleared ?st + 2 - 10
      else falling_speed gs' = falling_speed ?st \<and>
           total_lines_cleared gs' = total_lines_cleared ?st + 2"
    by auto
  with f have sp: "falling_speed gs' = 450" "total_lines_cleared gs' = 1" by simp_all
  from keeps_inv_ready [OF update_inv [OF reachable_inv [OF reachable_sample] d,
      of loud_settings 501] audio_ready_loud]
  obtain gs2 where u: "update loud_settings sample_state 501 0 = Inr gs2" by blast
  have "falling_speed sample_state = 500" by (simp add: sample_state_def)
  with speed_up_law [of sample_state loud_settings] reachable_sample u
  have "falling_speed gs2 \<le> 500" by (metis (no_types, lifting))
  with l' c p sp reachable_sample u show ?thesis by (simp add: landing_state_def)
qed



text \<open>
  C6. On a grid of \<open>GRID_HEIGHT\<close> rows of \<open>GRID_WIDTH\<close> cells, for every piece and
  offset: \<open>valid_move\<close> returns exactly the specification's validity (every occupied
  cell has its horizontal position in \<open>[0, W)\<close>, its vertical position below \<open>H\<close>,
  and lands on an empty cell when its vertical position is \<open>\<ge> 0\<close>); \<open>move\<close> commits
  the translation and returns \<open>True\<close> when the translated position is valid, and
  otherwise returns \<open>False\<close> and leaves the piece as it was; and after \<open>move\<close>
  returns \<open>True\<close>, \<open>valid_move(grid, 0, 0)\<close> holds for the moved piece.
\<close>

theorem move_commits_iff_valid:
  assumes "wf_grid g"
  shows "valid_move p g dx dy = Inr (valid_at p g dx dy) \<and>
         move p g dx dy =
           Inr (if valid_at p g dx dy then (p\<lparr>x := x p + dx, y := y p + dy\<rparr>, True)
                else (p, False)) \<and>
         (\<forall>p'. move p g dx dy = Inr (p', True) \<longrightarrow> valid_move p' g 0 0 = Inr True)"
proof (intro conjI allI impI)
  show "valid_move p g dx dy = Inr (valid_at p g dx dy)"
    using assms by (rule valid_move_wf)
  show "move p g dx dy =
      Inr (if valid_at p g dx dy then (p\<lparr>x := x p + dx, y := y p + dy\<rparr>, True) else (p, False))"
    using assms by (rule move_wf)
next
  fix p'
  assume m: "move p g dx dy = Inr (p', True)"
  with assms have v: "valid_at p g dx dy" and p': "p' = p\<lparr>x := x p + dx, y := y p + dy\<rparr>"
    by (auto simp: move_wf split: if_splits)
  from v have "valid_at p' g 0 0" by (simp add: p' valid_at_shift)
  with assms show "valid_move p' g 0 0 = Inr True" by (simp add: valid_move_wf)
qed

theorem move_commits_iff_valid_witness:
  "wf_grid empty_grid \<and>
   move O_piece empty_grid 0 1 = Inr (O_piece\<lparr>y := 1\<rparr>, True) \<and>
   valid_move (O_piece\<lparr>y := 1\<rparr>) empty_grid 0 0 = Inr True \<and>
   move O_piece empty_grid 0 19 = Inr (O_piece, False)"
proof -
  have wf: "wf_grid empty_grid" by code_simp
  have v1: "valid_at O_piece empty_grid 0 1" by code_simp
  have v2: "\<not> valid_at O_piece empty_grid 0 19" by code_simp
  have e: "O_piece\<lparr>x := x O_piece + 0, y := y O_piece + 1\<rparr> = O_piece\<lparr>y := 1\<rparr>"
    by (simp add: O_piece_def)
  from move_commits_iff_valid [OF wf, of O_piece 0 1] v1 e
  have m1: "move O_piece empty_grid 0 1 = Inr (O_piece\<lparr>y := 1\<rparr>, True)"
    and m2: "valid_move (O_piece\<lparr>y := 1\<rparr>) empty_grid 0 0 = Inr True"
    by simp_all
  from move_commits_iff_valid [OF wf, of O_piece 0 19] v2
  have m3: "move O_piece empty_grid 0 19 = Inr (O_piece, False)" by simp
  from wf m1 m2 m3 show ?thesis by simp
qed

text \<open>
  C7. While \<open>paused\<close> or \<open>game_over\<close> is set, \<open>update\<close> returns the state as it is.
  Otherwise an \<open>update\<close> that returns sets \<open>game_over\<close> exactly when the automatic fall
  is due, the step down fails (the lock event), and the promoted piece is not valid at
  offset \<open>(0, 0)\<close> against the grid after the lock. No handled event sets \<open>game_over\<close>.
\<close>

theorem game_over_law:
  "(paused gs \<or> game_over gs \<longrightarrow> update st gs t idx = Inr gs) \<and>
   (\<forall>gs'. \<not> paused gs \<and> \<not> game_over gs \<and> update st gs t idx = Inr gs' \<longrightarrow>
      (game_over gs' \<longleftrightarrow>
         (\<exists>gs1. held_keys_loop st gs t [K_LEFT, K_RIGHT, K_DOWN] = Inr gs1 \<and>
                t - last_fall_time gs1 > falling_speed gs1 \<and>
                move (current_tetrimino gs1) (grid gs1) 0 1
                  = Inr (current_tetrimino gs1, False) \<and>
                current_tetrimino gs' = next_tetrimino gs1 \<and>
                valid_move (current_tetrimino gs') (grid gs') 0 0 = Inr False))) \<and>
   (\<forall>st' ev gs'. handle_event st' gs ev = Inr gs' \<and> game_over gs' \<longrightarrow> game_over gs)"
proof -
  have a: "paused gs \<or> game_over gs \<longrightarrow> update st gs t idx = Inr gs"
    by (simp add: update_def)
  have b: "\<forall>gs'. \<not> paused gs \<and> \<not> game_over gs \<and> update st gs t idx = Inr gs' \<longrightarrow>
      (game_over gs' \<longleftrightarrow>
         (\<exists>gs1. held_keys_loop st gs t [K_LEFT, K_RIGHT, K_DOWN] = Inr gs1 \<and>
                t - last_fall_time gs1 > falling_speed gs1 \<and>
                move (current_tetrimino gs1) (grid gs1) 0 1
                  = Inr (current_tetrimino gs1, False) \<and>
                current_tetrimino gs' = next_tetrimino gs1 \<and>
                valid_move (current_tetrimino gs') (grid gs') 0 0 = Inr False))"
  proof (intro allI impI)
    fix gs'
    assume h: "\<not> paused gs \<and> \<not> game_over gs \<and> update st gs t idx = Inr gs'"
    then have "\<exists>gs1. held_keys_loop st gs t [K_LEFT, K_RIGHT, K_DOWN] = Inr gs1 \<and>
        auto_fall st gs1 t idx = Inr gs'"
      by (blast intro: update_InrD)
    then obtain gs1 where
      l: "held_keys_loop st gs t [K_LEFT, K_RIGHT, K_DOWN] = Inr gs1"
      and f: "auto_fall st gs1 t idx = Inr gs'"
      by blast
    from held_keys_loop_frame [OF l] h have "\<not> game_over gs1" by simp
    from auto_fall_game_over [OF f this] l
    show "game_over gs' \<longleftrightarrow>
         (\<exists>gs1. held_keys_loop st gs t [K_LEFT, K_RIGHT, K_DOWN] = Inr gs1 \<and>
                t - last_fall_time gs1 > falling_speed gs1 \<and>
                move (current_tetrimino gs1) (grid gs1) 0 1
                  = Inr (current_tetrimino gs1, False) \<and>
                current_tetrimino gs' = next_tetrimino gs1 \<and>
                valid_move (current_tetrimino gs') (grid gs') 0 0 = Inr False)"
      by auto
  qed
  have c: "\<forall>st' ev gs'. handle_event st' gs ev = Inr gs' \<and> game_over gs' \<longrightarrow> game_over gs"
    by (blast dest: handle_event_game_over)
  show ?thesis by (rule conjI [OF a conjI [OF b c]])
qed

theorem game_over_law_witness:
  "\<not> paused topped_state \<and> \<not> game_over topped_state \<and>
   (\<exists>gs'. update loud_settings topped_state 501 0 = Inr gs' \<and> game_over gs' \<and>
           valid_move (current_tetrimino gs') (grid gs') 0 0 = Inr False \<and>
           update loud_settings gs' 2000 0 = Inr gs')"
proof -
  have f: "\<not> paused topped_state" "\<not> game_over topped_state"
    by (simp_all add: topped_state_def sample_state_def)
  have "map_sum id game_over (update loud_settings topped_state 501 0) = Inr True"
    by code_simp
  then obtain gs' where u: "update loud_settings topped_state 501 0 = Inr gs'"
    and g: "game_over gs'"
    by (cases "update loud_settings topped_state 501 0") auto
  from game_over_law [of topped_state loud_settings 501 0] f u g
  have v: "valid_move (current_tetrimino gs') (grid gs') 0 0 = Inr False" by blast
  from game_over_law [of gs' loud_settings 2000 0] g
  have "update loud_settings gs' 2000 0 = Inr gs'" by blast
  with f u g v show ?thesis by blast
qed

text \<open>
  C8, as the claim states it: \<open>reset\<close> sets the time of the last use of the ability to
  the current time minus the cooldown. It does not: at a wall clock of 1000 seconds the
  time stored is \<open>-45\<close>, not \<open>955\<close>.
\<close>

theorem reset_cooldown_counterexample:
  "map_sum id last_skill_time (reset sample_state 0 3 1) = Inr (- 45) \<and>
   (- 45 :: real) \<noteq> 1000 - real_of_int SKILL_COOLDOWN"
proof -
  have "new_tetrimino 3 = Inr O_piece" "new_tetrimino 1 = Inr L_piece" by code_simp+
  then show ?thesis by (simp add: reset_def SKILL_COOLDOWN_def)
qed

text \<open>
  C8, amended. For draws of the generator in range, \<open>reset\<close> sets the grid to
  \<open>GRID_HEIGHT\<close> empty rows, the score to 0, the falling speed to 500, the line counter
  to 0, the time of the last use of the ability to the constant \<open>-SKILL_COOLDOWN\<close> (so
  that the cooldown test passes at every clock reading \<open>\<ge> 0\<close>), the active and the
  preview piece to freshly constructed pieces, and clears \<open>game_over\<close> and \<open>paused\<close>.
\<close>

theorem reset_state:
  assumes "drawn idx1" "drawn idx2"
  shows "\<exists>cur nxt.
           new_tetrimino idx1 = Inr cur \<and> new_tetrimino idx2 = Inr nxt \<and>
           y cur = 0 \<and> y nxt = 0 \<and>
           reset gs ticks idx1 idx2 =
             Inr (gs\<lparr>grid := replicate (nat GRID_HEIGHT) (replicate (nat GRID_WIDTH) Zero),
                      score := 0,
                      last_skill_time := - real_of_int SKILL_COOLDOWN,
                      current_tetrimino := cur,
                      next_tetrimino := nxt,
                      falling_speed := 500,
                      last_fall_time := ticks,
                      total_lines_cleared := 0,
                      game_over := False,
                      paused := False\<rparr>) \<and>
           (\<forall>gs' now. reset gs ticks idx1 idx2 = Inr gs' \<and> 0 \<le> now
              \<longrightarrow> \<not> now - last_skill_time gs' < real_of_int SKILL_COOLDOWN)"
proof -
  from new_tetrimino_drawn [OF assms(1)] obtain p1 where
    p1: "new_tetrimino idx1 = Inr p1" "y p1 = 0" by blast
  from new_tetrimino_drawn [OF assms(2)] obtain p2 where
    p2: "new_tetrimino idx2 = Inr p2" "y p2 = 0" by blast
  from p1 p2 show ?thesis
    by (auto simp: reset_def)
qed

theorem reset_state_witness:
  "drawn 3 \<and> drawn 1 \<and>
   reset (landing_state\<lparr>score := 150, game_over := True\<rparr>) 0 3 1 = Inr sample_state \<and>
   \<not> (0 - last_skill_time sample_state < real_of_int SKILL_COOLDOWN)"
proof -
  let ?gs = "landing_state\<lparr>score := 150, game_over := True\<rparr>"
  have d: "drawn 3" "drawn 1" by (simp_all add: drawn_def)
  have n: "new_tetrimino 3 = Inr O_piece" "new_tetrimino 1 = Inr L_piece" by code_simp+
  from reset_state [OF d, of ?gs 0] n
  have r: "reset ?gs 0 3 1 = Inr sample_state"
    and u: "\<forall>gs' now. reset ?gs 0 3 1 = Inr gs' \<and> 0 \<le> now
              \<longrightarrow> \<not> now - last_skill_time gs' < real_of_int SKILL_COOLDOWN"
    by (auto simp: landing_state_def sample_state_def empty_grid_def
        GRID_HEIGHT_def GRID_WIDTH_def SKILL_COOLDOWN_def)
  from u r have "\<not> (0 - last_skill_time sample_state < real_of_int SKILL_COOLDOWN)"
    by blast
  with d r show ?thesis by simp
qed

text \<open>
  C9. In every reachable state the grid has \<open>GRID_HEIGHT\<close> rows of \<open>GRID_WIDTH\<close>
  cells and the anchor of the active piece has \<open>y \<ge> 0\<close>. The lock loop of \<open>update\<close>
  runs on the piece as the held-key loop leaves it; that loop returns, every index pair
  the lock loop writes, \<open>(y + row, x + col)\<close> for an occupied cell, satisfies
  \<open>0 \<le> y + row < GRID_HEIGHT\<close> and \<open>0 \<le> x + col < GRID_WIDTH\<close>, and the lock loop
  returns a grid. For every draw of the generator and any settings \<open>update\<close> raises no
  IndexError, and with the sounds loaded and the mixer initialised it returns a state.
\<close>

theorem lock_indices_in_range:
  assumes "reachable gs"
  shows "wf_grid (grid gs) \<and> 0 \<le> y (current_tetrimino gs) \<and>
         (\<forall>st t. \<exists>gs1. held_keys_loop st gs t [K_LEFT, K_RIGHT, K_DOWN] = Inr gs1) \<and>
         (\<forall>st t gs1. held_keys_loop st gs t [K_LEFT, K_RIGHT, K_DOWN] = Inr gs1 \<longrightarrow>
            wf_grid (grid gs1) \<and> 0 \<le> y (current_tetrimino gs1) \<and>
            list_all (\<lambda>rc. 0 \<le> y (current_tetrimino gs1) + int (fst rc) \<and>
                           y (current_tetrimino gs1) + int (fst rc) < GRID_HEIGHT \<and>
                           0 \<le> x (current_tetrimino gs1) + int (snd rc) \<and>
                           x (current_tetrimino gs1) + int (snd rc) < GRID_WIDTH)
              (occupied (shape (current_tetrimino gs1))) \<and>
            (\<exists>g'. lock_cells (current_tetrimino gs1) (grid gs1)
                     (occupied (shape (current_tetrimino gs1))) = Inr g')) \<and>
         (\<forall>st t idx. drawn idx \<longrightarrow>
            update st gs t idx \<noteq> Inl IndexError \<and>
            (audio_ready st \<longrightarrow> (\<exists>gs'. update st gs t idx = Inr gs')))"
proof -
  from assms have i: "state_inv gs" by (rule reachable_inv)
  have a: "wf_grid (grid gs) \<and> 0 \<le> y (current_tetrimino gs)"
    using i by (simp add: state_inv_def)
  have a': "\<forall>st t. \<exists>gs1. held_keys_loop st gs t [K_LEFT, K_RIGHT, K_DOWN] = Inr gs1"
    using held_keys_loop_inv [OF i] by blast
  have b: "\<forall>st t gs1. held_keys_loop st gs t [K_LEFT, K_RIGHT, K_DOWN] = Inr gs1 \<longrightarrow>
            wf_grid (grid gs1) \<and> 0 \<le> y (current_tetrimino gs1) \<and>
            list_all (\<lambda>rc. 0 \<le> y (current_tetrimino gs1) + int (fst rc) \<and>
                           y (current_tetrimino gs1) + int (fst rc) < GRID_HEIGHT \<and>
                           0 \<le> x (current_tetrimino gs1) + int (snd rc) \<and>
                           x (current_tetrimino gs1) + int (snd rc) < GRID_WIDTH)
              (occupied (shape (current_tetrimino gs1))) \<and>
            (\<exists>g'. lock_cells (current_tetrimino gs1) (grid gs1)
                     (occupied (shape (current_tetrimino gs1))) = Inr g')"
  proof (intro allI impI)
    fix st t gs1
    assume l: "held_keys_loop st gs t [K_LEFT, K_RIGHT, K_DOWN] = Inr gs1"
    with held_keys_loop_inv [OF i, of st t "[K_LEFT, K_RIGHT, K_DOWN]"]
    have i1: "state_inv gs1" by auto
    then have w: "wf_grid (grid gs1)" and y0: "0 \<le> y (current_tetrimino gs1)"
      and ib: "in_bounds (current_tetrimino gs1)"
      by (simp_all add: state_inv_def)
    from ib y0 have r: "list_all (\<lambda>rc. 0 \<le> y (current_tetrimino gs1) + int (fst rc) \<and>
                           y (current_tetrimino gs1) + int (fst rc) < GRID_HEIGHT \<and>
                           0 \<le> x (current_tetrimino gs1) + int (snd rc) \<and>
                           x (current_tetrimino gs1) + int (snd rc) < GRID_WIDTH)
              (occupied (shape (current_tetrimino gs1)))"
      by (auto simp: in_bounds_def cell_in_bounds_def list_all_iff)
    from ib have "list_all (cell_in_bounds (current_tetrimino gs1))
        (occupied (shape (current_tetrimino gs1)))"
      by (simp add: in_bounds_def)
    from lock_cells_wf [OF y0 w this]
    have "\<exists>g'. lock_cells (current_tetrimino gs1) (grid gs1)
        (occupied (shape (current_tetrimino gs1))) = Inr g'"
      by blast
    with w y0 r show "wf_grid (grid gs1) \<and> 0 \<le> y (current_tetrimino gs1) \<and>
            list_all (\<lambda>rc. 0 \<le> y (current_tetrimino gs1) + int (fst rc) \<and>
                           y (current_tetrimino gs1) + int (fst rc) < GRID_HEIGHT \<and>
                           0 \<le> x (current_tetrimino gs1) + int (snd rc) \<and>
                           x (current_tetrimino gs1) + int (snd rc) < GRID_WIDTH)
              (occupied (shape (current_tetrimino gs1))) \<and>
            (\<exists>g'. lock_cells (current_tetrimino gs1) (grid gs1)
                     (occupied (shape (current_tetrimino gs1))) = Inr g')"
      by blast
  qed
  have c: "\<forall>st t idx. drawn idx \<longrightarrow>
            update st gs t idx \<noteq> Inl IndexError \<and>
            (audio_ready st \<longrightarrow> (\<exists>gs'. update st gs t idx = Inr gs'))"
  proof (intro allI impI conjI)
    fix st t idx
    assume d: "drawn idx"
    show "update st gs t idx \<noteq> Inl IndexError"
      using update_inv [OF i d, of st t] by (rule keeps_inv_no_IndexError)
    assume "audio_ready st"
    with keeps_inv_ready [OF update_inv [OF i d, of st t]]
    show "\<exists>gs'. update st gs t idx = Inr gs'" by blast
  qed
  show ?thesis by (rule conjI [OF conjunct1 [OF a] conjI [OF conjunct2 [OF a]
    conjI [OF a' conjI [OF b c]]]])
qed

theorem lock_indices_in_range_witness:
  "reachable sample_state \<and> drawn 0 \<and> audio_ready loud_settings \<and>
   (\<exists>gs1. handle_event loud_settings sample_state (KEYDOWN_arrow K_DOWN 7) = Inr gs1 \<and>
           reachable gs1 \<and> 0 \<le> y (current_tetrimino gs1) \<and>
           update silent_settings gs1 501 0 \<noteq> Inl IndexError \<and>
           (\<exists>gs'. update loud_settings gs1 501 0 = Inr gs'))"
proof -
  have d: "drawn 0" by (simp add: drawn_def)
  have e: "event_draws (KEYDOWN_arrow K_DOWN 7)" by simp
  from keeps_inv_ready [OF handle_event_inv [OF reachable_inv [OF reachable_sample] e,
      of loud_settings] audio_ready_loud]
  obtain gs1 where
    h: "handle_event loud_settings sample_state (KEYDOWN_arrow K_DOWN 7) = Inr gs1" by blast
  from reachable_sample e h have r: "reachable gs1" by (rule reachable.handled)
  from lock_indices_in_range [OF r] d audio_ready_loud
  have "0 \<le> y (current_tetrimino gs1)"
    "update silent_settings gs1 501 0 \<noteq> Inl IndexError"
    "\<exists>gs'. update loud_settings gs1 501 0 = Inr gs'"
    by blast+
  with reachable_sample d audio_ready_loud h r show ?thesis by blast
qed

text \<open>
  C10. \<open>valid_move\<close> is a query: it returns its verdict and nothing else. A \<open>move\<close>
  that returns \<open>False\<close> returns the piece as it was. \<open>rotate\<close> changes at most the
  shape of the piece: the anchor, the colour and the rotation counter are as before, and
  a rejected rotation returns the piece as it was. The commands that call them (an arrow
  key, the up key, a held key in \<open>update\<close>) leave the grid as it was.
\<close>

theorem rejected_commands_frame:
  "(\<forall>p'. move p g dx dy = Inr (p', False) \<longrightarrow> p' = p) \<and>
   (\<forall>st p' b. rotate p g st = Inr (p', b) \<longrightarrow>
      x p' = x p \<and> y p' = y p \<and> color p' = color p \<and> rotation p' = rotation p \<and>
      (if b then shape p' = zip_star (rev (shape p)) else p' = p)) \<and>
   (\<forall>st k ticks gs'. handle_event st gs (KEYDOWN_arrow k ticks) = Inr gs'
      \<longrightarrow> grid gs' = grid gs) \<and>
   (\<forall>st gs'. handle_event st gs KEYDOWN_UP = Inr gs' \<longrightarrow> grid gs' = grid gs) \<and>
   (\<forall>st t k gs'. held_key_step st gs t k = Inr gs' \<longrightarrow> grid gs' = grid gs)"
proof -
  have a: "\<forall>p'. move p g dx dy = Inr (p', False) \<longrightarrow> p' = p"
    by (blast dest: move_False_same)
  have b: "\<forall>st p' b. rotate p g st = Inr (p', b) \<longrightarrow>
      x p' = x p \<and> y p' = y p \<and> color p' = color p \<and> rotation p' = rotation p \<and>
      (if b then shape p' = zip_star (rev (shape p)) else p' = p)"
    by (blast dest: rotate_frame)
  have c: "\<forall>st k ticks gs'. handle_event st gs (KEYDOWN_arrow k ticks) = Inr gs'
      \<longrightarrow> grid gs' = grid gs"
    by (auto simp: handle_event_def split: if_splits sum.splits prod.splits)
  have d: "\<forall>st gs'. handle_event st gs KEYDOWN_UP = Inr gs' \<longrightarrow> grid gs' = grid gs"
    by (auto simp: handle_event_def split: if_splits sum.splits prod.splits)
  have e: "\<forall>st t k gs'. held_key_step st gs t k = Inr gs' \<longrightarrow> grid gs' = grid gs"
    by (simp add: held_key_step_frame)
  show ?thesis by (rule conjI [OF a conjI [OF b conjI [OF c conjI [OF d e]]]])
qed

theorem rejected_commands_frame_witness:
  "move O_piece empty_grid 0 19 = Inr (O_piece, False) \<and>
   (\<exists>p'. rotate L_piece empty_grid loud_settings = Inr (p', True) \<and>
          x p' = 4 \<and> y p' = 0 \<and> color p' = RED \<and> shape p' = [[0, 1], [0, 1], [1, 1]]) \<and>
   rotate (L_piece\<lparr>y := 18\<rparr>) empty_grid silent_settings = Inr (L_piece\<lparr>y := 18\<rparr>, False) \<and>
   (\<exists>gs'. handle_event loud_settings sample_state (KEYDOWN_arrow K_LEFT 7) = Inr gs' \<and>
           grid gs' = empty_grid \<and> x (current_tetrimino gs') = 3) \<and>
   (\<exists>gs'. handle_event loud_settings sample_state KEYDOWN_UP = Inr gs' \<and>
           grid gs' = empty_grid)"
proof -
  have wf: "wf_grid empty_grid" by code_simp
  have rs: "rotate_sound loud_settings = Some (Sound ''music/rotate.wav'')"
    by (simp add: loud_settings_def)
  have v: "\<not> valid_at O_piece empty_grid 0 19" by code_simp
  with wf have m: "move O_piece empty_grid 0 19 = Inr (O_piece, False)"
    by (simp add: move_wf)
  from rejected_commands_frame [of O_piece empty_grid 0 19] m
  have c1: "move O_piece empty_grid 0 19 = Inr (O_piece, False)" by simp
  have z: "zip_star (rev (shape L_piece)) = [[0, 1], [0, 1], [1, 1]]" by code_simp
  have v2: "valid_at (L_piece\<lparr>shape := [[0, 1], [0, 1], [1, 1]]\<rparr>) empty_grid 0 0" by code_simp
  with wf z rs have r: "rotate L_piece empty_grid loud_settings
      = Inr (L_piece\<lparr>shape := [[0, 1], [0, 1], [1, 1]]\<rparr>, True)"
    by (simp add: rotate_wf)
  from rejected_commands_frame [of L_piece empty_grid 0 0 sample_state] r z
  have c2: "\<exists>p'. rotate L_piece empty_grid loud_settings = Inr (p', True) \<and>
      x p' = 4 \<and> y p' = 0 \<and> color p' = RED \<and> shape p' = [[0, 1], [0, 1], [1, 1]]"
    by (simp add: L_piece_def)
  have z3: "zip_star (rev (shape (L_piece\<lparr>y := 18\<rparr>))) = [[0, 1], [0, 1], [1, 1]]" by code_simp
  have v3: "\<not> valid_at (L_piece\<lparr>y := 18, shape := [[0, 1], [0, 1], [1, 1]]\<rparr>) empty_grid 0 0"
    by code_simp
  from wf z3 v3 have c3: "rotate (L_piece\<lparr>y := 18\<rparr>) empty_grid silent_settings
      = Inr (L_piece\<lparr>y := 18\<rparr>, False)"
    by (simp add: rotate_wf)
  have v4: "valid_at O_piece empty_grid (- 1) 0" by code_simp
  with wf have "handle_event loud_settings sample_state (KEYDOWN_arrow K_LEFT 7)
      = Inr (sample_state\<lparr>held_keys := (held_keys sample_state)(K_LEFT := True),
          last_move_time := (last_move_time sample_state)(K_LEFT := 7),
          current_tetrimino := O_piece\<lparr>x := x O_piece + - 1, y := y O_piece + 0\<rparr>\<rparr>)"
    by (simp add: handle_event_def sample_state_def move_wf)
  with rejected_commands_frame [of O_piece empty_grid 0 19 sample_state]
  have c4: "\<exists>gs'. handle_event loud_settings sample_state (KEYDOWN_arrow K_LEFT 7) = Inr gs' \<and>
      grid gs' = empty_grid \<and> x (current_tetrimino gs') = 3"
    by (simp add: sample_state_def O_piece_def)
  have z5: "zip_star (rev (shape O_piece)) = [[1, 1], [1, 1]]" by code_simp
  have v5: "valid_at (O_piece\<lparr>shape := [[1, 1], [1, 1]]\<rparr>) empty_grid 0 0" by code_simp
  with wf z5 rs have "handle_event loud_settings sample_state KEYDOWN_UP
      = Inr (sample_state\<lparr>current_tetrimino := O_piece\<lparr>shape := [[1, 1], [1, 1]]\<rparr>\<rparr>)"
    by (simp add: handle_event_def sample_state_def rotate_wf)
  then have c5: "\<exists>gs'. handle_event loud_settings sample_state KEYDOWN_UP = Inr gs' \<and>
      grid gs' = empty_grid"
    by (simp add: sample_state_def)
  from c1 c2 c3 c4 c5 show ?thesis by blast
qed

end
